theory Spec2Isabelle
  imports Main "HOL-Library.Log_Nat" "HOL-Library.Char_ord" "HOL-Library.List_Lexorder"
    "HOL-Library.AList"
begin

section \<open>Strings\<close>

text \<open>
  A Go string is a sequence of bytes; it is modelled as a \<open>char list\<close>. The functions
  of package \<open>strings\<close> that the analyzer calls are written out below. \<open>ToLower\<close>
  and \<open>TrimSpace\<close> are modelled on ASCII: a byte above 127 is left as it is (Go
  also folds the case of non-ASCII letters and trims the Unicode spaces).
\<close>

fun HasPrefix :: "string \<Rightarrow> string \<Rightarrow> bool" where
  "HasPrefix s [] = True"
| "HasPrefix [] (p # ps) = False"
| "HasPrefix (c # cs) (p # ps) = (c = p \<and> HasPrefix cs ps)"

definition HasSuffix :: "string \<Rightarrow> string \<Rightarrow> bool" where
  "HasSuffix s suffix = HasPrefix (rev s) (rev suffix)"

fun Contains :: "string \<Rightarrow> string \<Rightarrow> bool" where
  "Contains [] substr = (substr = [])"
| "Contains (c # cs) substr = (HasPrefix (c # cs) substr \<or> Contains cs substr)"

definition upper_letters :: string where
  "upper_letters = ''ABCDEFGHIJKLMNOPQRSTUVWXYZ''"

definition lower_letters :: string where
  "lower_letters = ''abcdefghijklmnopqrstuvwxyz''"

definition lower_char :: "char \<Rightarrow> char" where
  "lower_char c = (case map_of (zip upper_letters lower_letters) c of Some l \<Rightarrow> l | None \<Rightarrow> c)"

definition ToLower :: "string \<Rightarrow> string" where
  "ToLower s = map lower_char s"

section \<open>Numbers\<close>

text \<open>
  The analyzer is built for Linux on amd64, where Go's \<open>int\<close> has 64 bits. It is
  modelled by \<open>int\<close>, and \<open>int64\<close> wraps the result of an operation that can
  leave the range, as the machine does. The tallies of one window are not wrapped: each
  counts samples of one slice, and the length of a slice is an \<open>int\<close>. Integer
  division truncates towards zero.
\<close>

definition int64 :: "int \<Rightarrow> int" where
  "int64 x = (x + 2 ^ 63) mod 2 ^ 64 - 2 ^ 63"

definition quo :: "int \<Rightarrow> int \<Rightarrow> int" where
  "quo a b = sgn a * sgn b * (\<bar>a\<bar> div \<bar>b\<bar>)"

text \<open>
  The runtime allocates at most \<open>2^48\<close> bytes at once, so a slice of pointers has
  at most \<open>2^45\<close> elements: \<open>make\<close> panics for a longer one, as it does for a
  negative length. Below that limit the model takes the memory to be there.
\<close>

definition maxSliceLen :: int where
  "maxSliceLen = 2 ^ 45"

text \<open>
  A \<open>float64\<close> is a binary fraction of 53 significant bits with an exponent from
  -1022 to 1023, an infinity, or a NaN. A finite one is modelled by the rational number
  it stands for; the two zeros are one value (they are equal in every comparison and
  differ only as divisors, where either gives an infinity or a NaN, which the analyzer
  converts to the same \<open>int\<close>). Every arithmetic operation computes the exact result
  and rounds it to nearest, ties to even: to 53 bits, to a multiple of \<open>2^-1074\<close>
  below \<open>2^-1022\<close>, and to an infinity when the rounded result is beyond the largest
  double. Each operation rounds on its own, as the code compiled for amd64 does.
\<close>

datatype float64 = Finite rat | PosInf | NegInf | NaN

definition binade :: "rat \<Rightarrow> int" where
  \<comment> \<open>the exponent \<open>e\<close> with \<open>2^e \<le> |x| < 2^(e+1)\<close>, for \<open>x \<noteq> 0\<close>\<close>
  "binade x = (if 1 \<le> \<bar>x\<bar> then bitlen \<lfloor>\<bar>x\<bar>\<rfloor> - 1 else - bitlen (\<lceil>1 / \<bar>x\<bar>\<rceil> - 1))"

definition round_half_even :: "rat \<Rightarrow> int" where
  "round_half_even x =
     (let f = \<lfloor>x\<rfloor>; d = x - of_int f
      in if d < 1/2 then f else if 1/2 < d then f + 1 else if even f then f else f + 1)"

definition nearest :: "rat \<Rightarrow> rat" where
  \<comment> \<open>rounding with no bound on the exponent from above\<close>
  "nearest x = (if x = 0 then 0
     else let u = 2 powi (max (binade x) (- 1022) - 52) in of_int (round_half_even (x / u)) * u)"

definition round64 :: "rat \<Rightarrow> float64" where
  \<comment> \<open>the largest double has exponent 1023\<close>
  "round64 x =
     (let r = nearest x
      in if r = 0 \<or> binade r < 1024 then Finite r else if 0 < r then PosInf else NegInf)"

fun fadd :: "float64 \<Rightarrow> float64 \<Rightarrow> float64" where
  "fadd (Finite a) (Finite b) = round64 (a + b)"
| "fadd NaN _ = NaN"
| "fadd _ NaN = NaN"
| "fadd PosInf NegInf = NaN"
| "fadd NegInf PosInf = NaN"
| "fadd PosInf _ = PosInf"
| "fadd _ PosInf = PosInf"
| "fadd NegInf _ = NegInf"
| "fadd _ NegInf = NegInf"

fun fsub :: "float64 \<Rightarrow> float64 \<Rightarrow> float64" where
  "fsub (Finite a) (Finite b) = round64 (a - b)"
| "fsub NaN _ = NaN"
| "fsub _ NaN = NaN"
| "fsub PosInf PosInf = NaN"
| "fsub NegInf NegInf = NaN"
| "fsub PosInf _ = PosInf"
| "fsub _ NegInf = PosInf"
| "fsub NegInf _ = NegInf"
| "fsub _ PosInf = NegInf"

fun fmul :: "float64 \<Rightarrow> float64 \<Rightarrow> float64" where
  "fmul (Finite a) (Finite b) = round64 (a * b)"
| "fmul NaN _ = NaN"
| "fmul _ NaN = NaN"
| "fmul (Finite a) PosInf = (if a = 0 then NaN else if 0 < a then PosInf else NegInf)"
| "fmul (Finite a) NegInf = (if a = 0 then NaN else if 0 < a then NegInf else PosInf)"
| "fmul PosInf (Finite b) = (if b = 0 then NaN else if 0 < b then PosInf else NegInf)"
| "fmul NegInf (Finite b) = (if b = 0 then NaN else if 0 < b then NegInf else PosInf)"
| "fmul PosInf PosInf = PosInf"
| "fmul NegInf NegInf = PosInf"
| "fmul PosInf NegInf = NegInf"
| "fmul NegInf PosInf = NegInf"

fun fdiv :: "float64 \<Rightarrow> float64 \<Rightarrow> float64" where
  "fdiv (Finite a) (Finite b) =
     (if b = 0 then (if a = 0 then NaN else if 0 < a then PosInf else NegInf)
      else round64 (a / b))"
| "fdiv NaN _ = NaN"
| "fdiv _ NaN = NaN"
| "fdiv (Finite a) PosInf = Finite 0"
| "fdiv (Finite a) NegInf = Finite 0"
| "fdiv PosInf (Finite b) = (if 0 \<le> b then PosInf else NegInf)"
| "fdiv NegInf (Finite b) = (if 0 \<le> b then NegInf else PosInf)"
| "fdiv PosInf PosInf = NaN"
| "fdiv PosInf NegInf = NaN"
| "fdiv NegInf PosInf = NaN"
| "fdiv NegInf NegInf = NaN"

fun fless :: "float64 \<Rightarrow> float64 \<Rightarrow> bool" where
  \<comment> \<open>\<open>a < b\<close>; \<open>a > b\<close> is \<open>fless b a\<close>. A comparison with a NaN is false.\<close>
  "fless (Finite a) (Finite b) = (a < b)"
| "fless NaN _ = False"
| "fless _ NaN = False"
| "fless NegInf NegInf = False"
| "fless NegInf _ = True"
| "fless PosInf _ = False"
| "fless _ PosInf = True"
| "fless _ NegInf = False"

definition float64_of_int :: "int \<Rightarrow> float64" where
  "float64_of_int i = round64 (of_int i)"

definition int_of_float64 :: "float64 \<Rightarrow> int" where
  \<comment> \<open>the conversion \<open>int(x)\<close>: the fraction is dropped. For a value outside the
     range of \<open>int\<close>, an infinity or a NaN, the language leaves the result to the
     implementation; the instruction that amd64 uses gives the least \<open>int\<close>.\<close>
  "int_of_float64 x =
     (case x of
        Finite r \<Rightarrow>
          (let t = (if 0 \<le> r then \<lfloor>r\<rfloor> else \<lceil>r\<rceil>)
           in if - (2 ^ 63) \<le> t \<and> t < 2 ^ 63 then t else - (2 ^ 63))
      | _ \<Rightarrow> - (2 ^ 63))"

section \<open>Conversions between strings and numbers (strconv, fmt)\<close>

definition space_chars :: "char list" where
  \<comment> \<open>tab, newline, vertical tab, form feed, carriage return, space\<close>
  "space_chars = [CHR 0x09, CHR 0x0A, CHR 0x0B, CHR 0x0C, CHR 0x0D, CHR 0x20]"

definition TrimSpace :: "string \<Rightarrow> string" where
  "TrimSpace s =
     rev (dropWhile (\<lambda>c. c \<in> set space_chars) (rev (dropWhile (\<lambda>c. c \<in> set space_chars) s)))"

definition is_digits :: "string \<Rightarrow> bool" where
  "is_digits s = (s \<noteq> [] \<and> list_all (\<lambda>c. c \<in> set ''0123456789'') s)"

definition decimal :: "string \<Rightarrow> int" where
  "decimal s = foldl (\<lambda>n c. 10 * n + (int (of_char c) - 48)) 0 s"

text \<open>\<open>strconv.Atoi\<close>: the callers drop its error, so only the value is modelled:
  0 on a syntax error, the nearest bound of \<open>int\<close> when the digits are out of range.\<close>

definition Atoi :: "string \<Rightarrow> int" where
  "Atoi s =
     (let (neg, ds) = (case s of [] \<Rightarrow> (False, s)
                       | c # r \<Rightarrow> if c = CHR ''-'' then (True, r)
                                  else if c = CHR ''+'' then (False, r) else (False, s))
      in if \<not> is_digits ds then 0
         else if neg then max (- decimal ds) (- (2 ^ 63))
         else min (decimal ds) (2 ^ 63 - 1))"

text \<open>\<open>strconv.ParseFloat(s, 64)\<close> on the only shape the parser passes to it,
  digits, a point, digits: the decimal number, rounded to the nearest double, an
  infinity when it is beyond the largest one. Any other text counts as a syntax error
  here (value 0; the caller drops the error).\<close>

definition ParseFloat :: "string \<Rightarrow> float64" where
  "ParseFloat s =
     (let ip = takeWhile (\<lambda>c. c \<noteq> CHR ''.'') s; fp = drop (length ip + 1) s
      in if is_digits ip \<and> is_digits fp \<and> length ip < length s
         then round64 (of_int (decimal ip) + of_int (decimal fp) / 10 ^ length fp)
         else Finite 0)"

fun show_nat :: "nat \<Rightarrow> string" where
  "show_nat n = (if n < 10 then [char_of (48 + n)] else show_nat (n div 10) @ [char_of (48 + n mod 10)])"

definition show_int :: "int \<Rightarrow> string" where
  \<comment> \<open>the verb \<open>%d\<close>\<close>
  "show_int i = (if i < 0 then CHR ''-'' # show_nat (nat (- i)) else show_nat (nat i))"

definition show_fixed :: "nat \<Rightarrow> float64 \<Rightarrow> string" where
  \<comment> \<open>the verbs \<open>%.0f\<close> and \<open>%.1f\<close>: \<open>prec\<close> digits after the point, correctly rounded\<close>
  "show_fixed prec v =
     (case v of
        Finite x \<Rightarrow>
          (let scaled = nat (round_half_even (\<bar>x\<bar> * 10 ^ prec));
               ip = scaled div 10 ^ prec;
               fp = show_nat (scaled mod 10 ^ prec)
           in (if x < 0 then ''-'' else []) @ show_nat ip
              @ (if prec = 0 then [] else ''.'' @ replicate (prec - length fp) CHR ''0'' @ fp))
      | PosInf \<Rightarrow> ''+Inf''
      | NegInf \<Rightarrow> ''-Inf''
      | NaN \<Rightarrow> ''NaN'')"

section \<open>Regular expressions (regexp)\<close>

text \<open>
  The three patterns of the parser use character classes, \<open>*\<close> and \<open>+\<close> on a
  class, concatenation, capturing groups and one optional group. \<open>rx\<close> is a
  backtracking matcher with the priorities of Go's \<open>regexp\<close> (leftmost-first: a greedy
  repetition tries the longest run first, an optional group is tried before it is
  skipped). The continuation \<open>k\<close> receives the rest of the text and the captures.
  All three patterns start with \<open>^\<close>, so a match can only begin at the first byte,
  and that is the only position \<open>FindStringSubmatch\<close> tries.
\<close>

datatype cclass = OneOf "char list" | NoneOf "char list"

fun cmatch :: "cclass \<Rightarrow> char \<Rightarrow> bool" where
  "cmatch (OneOf cs) c = (c \<in> set cs)"
| "cmatch (NoneOf cs) c = (c \<notin> set cs)"

datatype regex = Bol | Eps | Class cclass | Star cclass | Plus cclass | Cat regex regex
  | Group nat regex | Opt regex

fun rstar :: "cclass \<Rightarrow> string \<Rightarrow> (string \<Rightarrow> 'a option) \<Rightarrow> 'a option" where
  "rstar cl [] k = k []"
| "rstar cl (c # cs) k =
     (if cmatch cl c
      then (case rstar cl cs k of Some r \<Rightarrow> Some r | None \<Rightarrow> k (c # cs))
      else k (c # cs))"

fun rx :: "regex \<Rightarrow> string \<Rightarrow> (nat \<Rightarrow> string)
    \<Rightarrow> (string \<Rightarrow> (nat \<Rightarrow> string) \<Rightarrow> 'a option) \<Rightarrow> 'a option" where
  "rx Bol s caps k = k s caps"
| "rx Eps s caps k = k s caps"
| "rx (Class cl) s caps k =
     (case s of [] \<Rightarrow> None | c # cs \<Rightarrow> if cmatch cl c then k cs caps else None)"
| "rx (Star cl) s caps k = rstar cl s (\<lambda>rest. k rest caps)"
| "rx (Plus cl) s caps k =
     (case s of [] \<Rightarrow> None
      | c # cs \<Rightarrow> if cmatch cl c then rstar cl cs (\<lambda>rest. k rest caps) else None)"
| "rx (Cat a b) s caps k = rx a s caps (\<lambda>rest caps'. rx b rest caps' k)"
| "rx (Group n r) s caps k =
     rx r s caps (\<lambda>rest caps'. k rest (caps'(n := take (length s - length rest) s)))"
| "rx (Opt r) s caps k = (case rx r s caps k of Some x \<Rightarrow> Some x | None \<Rightarrow> k s caps)"

definition FindStringSubmatch :: "regex \<Rightarrow> nat \<Rightarrow> string \<Rightarrow> string list option" where
  \<comment> \<open>\<open>n\<close> is the number of groups of the pattern; a group that took no part in the
     match is the empty string, as in Go\<close>
  "FindStringSubmatch re n s =
     rx re s (\<lambda>_. [])
       (\<lambda>rest caps. Some (map (caps(0 := take (length s - length rest) s)) [0..<Suc n]))"

definition seq :: "regex list \<Rightarrow> regex" where
  "seq rs = foldr Cat rs Eps"

definition lit :: "char \<Rightarrow> regex" where
  "lit c = Class (OneOf [c])"

definition cls_s :: "char list" where
  \<comment> \<open>the class \<open>\s\<close>: tab, newline, form feed, carriage return, space\<close>
  "cls_s = [CHR 0x09, CHR 0x0A, CHR 0x0C, CHR 0x0D, CHR 0x20]"

definition cls_d :: "char list" where "cls_d = ''0123456789''"
definition cls_hex :: "char list" where "cls_hex = ''0123456789abcdefABCDEF''"

definition headerRegex1 :: regex where
  \<comment> \<open>\<^verbatim>\<open>^\s*(\S+)\s+(\d+)/(\d+)\s+\[(\d+)\]\s+(\d+\.\d+):\s+\d+\s+(\S+):\<close>\<close>
  "headerRegex1 = seq [Bol, Star (OneOf cls_s), Group 1 (Plus (NoneOf cls_s)), Plus (OneOf cls_s),
     Group 2 (Plus (OneOf cls_d)), lit CHR ''/'', Group 3 (Plus (OneOf cls_d)), Plus (OneOf cls_s),
     lit CHR ''['', Group 4 (Plus (OneOf cls_d)), lit CHR '']'', Plus (OneOf cls_s),
     Group 5 (seq [Plus (OneOf cls_d), lit CHR ''.'', Plus (OneOf cls_d)]), lit CHR '':'',
     Plus (OneOf cls_s), Plus (OneOf cls_d), Plus (OneOf cls_s),
     Group 6 (Plus (NoneOf cls_s)), lit CHR '':'']"

definition headerRegex2 :: regex where
  \<comment> \<open>\<^verbatim>\<open>^\s*(\S+)\s+(\d+)\s+(\d+\.\d+):\s+\d+\s+(\S+):\<close>\<close>
  "headerRegex2 = seq [Bol, Star (OneOf cls_s), Group 1 (Plus (NoneOf cls_s)), Plus (OneOf cls_s),
     Group 2 (Plus (OneOf cls_d)), Plus (OneOf cls_s),
     Group 3 (seq [Plus (OneOf cls_d), lit CHR ''.'', Plus (OneOf cls_d)]), lit CHR '':'',
     Plus (OneOf cls_s), Plus (OneOf cls_d), Plus (OneOf cls_s),
     Group 4 (Plus (NoneOf cls_s)), lit CHR '':'']"

definition stackRegex :: regex where
  \<comment> \<open>\<^verbatim>\<open>^\s+([0-9a-fA-F]+)\s+([^\+\(]+)(?:\+0x([0-9a-fA-F]+))?\s+\(([^\)]+)\)\<close>\<close>
  "stackRegex = seq [Bol, Plus (OneOf cls_s), Group 1 (Plus (OneOf cls_hex)), Plus (OneOf cls_s),
     Group 2 (Plus (NoneOf ''+('')),
     Opt (seq [lit CHR ''+'', lit CHR ''0'', lit CHR ''x'', Group 3 (Plus (OneOf cls_hex))]),
     Plus (OneOf cls_s), lit CHR ''('', Group 4 (Plus (NoneOf '')'')), lit CHR '')'']"

section \<open>Frames and the frame classifier (internal/parser/perfscript.go)\<close>

type_synonym FrameType = string

definition FrameTypeKernelCore :: FrameType where "FrameTypeKernelCore = ''kernel_core''"
definition FrameTypeKernelDriver :: FrameType where "FrameTypeKernelDriver = ''kernel_driver''"
definition FrameTypeLibC :: FrameType where "FrameTypeLibC = ''libc''"
definition FrameTypeLibPthread :: FrameType where "FrameTypeLibPthread = ''libpthread''"
definition FrameTypeLibMySQL :: FrameType where "FrameTypeLibMySQL = ''libmysql''"
definition FrameTypeApplication :: FrameType where "FrameTypeApplication = ''application''"
definition FrameTypeUnknown :: FrameType where "FrameTypeUnknown = ''unknown''"

record StackFrame =
  Address :: string
  Symbol :: string
  Module :: string
  Offset :: string
  Type :: FrameType
  IsKernel :: bool
  IsUserland :: bool

text \<open>\<open>ClassifyFrame\<close> reads the frame's module and symbol only; the rules are tried in
  the order of the source and the first that applies returns.\<close>

definition ClassifyFrame :: "StackFrame \<Rightarrow> FrameType \<times> bool \<times> bool" where
  "ClassifyFrame frame =
     (let module = ToLower (Module frame);
          symbol = ToLower (Symbol frame)
      in if Contains module ''kernel.kallsyms'' \<or> Contains module ''[kernel''
            \<or> Contains module ''vmlinux''
         then (FrameTypeKernelCore, True, False)
         else if HasPrefix module ''['' \<and> HasSuffix module '']''
         then (FrameTypeKernelDriver, True, False)
         else if Contains module ''libc''
                 \<and> (Contains module ''.so'' \<or> Contains module ''libc-'')
         then (FrameTypeLibC, False, True)
         else if Contains module ''libpthread''
         then (FrameTypeLibPthread, False, True)
         else if Contains module ''mysql'' \<or> Contains module ''mariadb''
                 \<or> Contains symbol ''mysql'' \<or> Contains symbol ''maria''
         then (FrameTypeLibMySQL, False, True)
         else if \<not> Contains module ''.so'' \<and> \<not> HasPrefix module ''[''
         then (FrameTypeApplication, False, True)
         else if Contains module ''.so''
         then (FrameTypeUnknown, False, True)
         else (FrameTypeUnknown, False, False))"

section \<open>Samples and the parser of perf script output (internal/parser/perfscript.go)\<close>

record Sample =
  Command :: string
  PID :: int
  TID :: int
  CPU :: int
  Timestamp :: float64
  Event :: string
  Stack :: "StackFrame list"

subsection \<open>Reading lines (bufio.Scanner with the default split function)\<close>

text \<open>
  \<open>split_lines\<close> cuts the text at every newline; what follows the last newline is a
  line when it is not empty. The scanner's buffer holds \<open>MaxScanTokenSize\<close> bytes: a
  line of that many bytes or more does not fit, \<open>Scan\<close> stops there and \<open>Err\<close>
  reports \<open>ErrTooLong\<close>. The lines before it have been delivered; each loses one
  trailing carriage return.
\<close>

fun split_lines :: "string \<Rightarrow> string \<Rightarrow> string list" where
  "split_lines [] cur = (if cur = [] then [] else [cur])"
| "split_lines (c # cs) cur =
     (if c = CHR 0x0A then cur # split_lines cs [] else split_lines cs (cur @ [c]))"

definition dropCR :: "string \<Rightarrow> string" where
  "dropCR l = (if l \<noteq> [] \<and> last l = CHR 0x0D then butlast l else l)"

definition MaxScanTokenSize :: nat where
  "MaxScanTokenSize = 64 * 1024"

definition ErrTooLong :: string where
  "ErrTooLong = ''bufio.Scanner: token too long''"

definition fits :: "string \<Rightarrow> bool" where
  "fits l = (length l < MaxScanTokenSize)"

definition Scan :: "string \<Rightarrow> string list \<times> string option" where
  \<comment> \<open>the lines that the loop \<open>for scanner.Scan()\<close> sees, and \<open>scanner.Err()\<close> after it\<close>
  "Scan content =
     (let tokens = split_lines content []
      in (map dropCR (takeWhile fits tokens),
          if list_all fits tokens then None else Some ErrTooLong))"

subsection \<open>ParsePerfScript\<close>

definition frame_of :: "string list \<Rightarrow> StackFrame" where
  \<comment> \<open>the frame built from the groups of \<open>stackRegex\<close>, then classified\<close>
  "frame_of matches =
     (let frame = \<lparr>Address = matches ! 1, Symbol = TrimSpace (matches ! 2),
                    Module = TrimSpace (matches ! 4), Offset = matches ! 3,
                    Type = [], IsKernel = False, IsUserland = False\<rparr>;
          (t, k, u) = ClassifyFrame frame
      in frame\<lparr>Type := t, IsKernel := k, IsUserland := u\<rparr>)"

text \<open>The state of the loop: \<open>samples\<close> and \<open>currentSample\<close> (\<open>None\<close> for nil).\<close>

type_synonym parser_state = "Sample list \<times> Sample option"

definition flush :: "parser_state \<Rightarrow> Sample list" where
  "flush st = (case snd st of None \<Rightarrow> fst st | Some currentSample \<Rightarrow> fst st @ [currentSample])"

definition parse_line :: "parser_state \<Rightarrow> string \<Rightarrow> parser_state" where
  \<comment> \<open>one turn of the loop\<close>
  "parse_line st line =
     (case FindStringSubmatch headerRegex1 6 line of
        Some matches \<Rightarrow>
          (flush st,
           Some \<lparr>Command = TrimSpace (matches ! 1), PID = Atoi (matches ! 2),
                 TID = Atoi (matches ! 3), CPU = Atoi (matches ! 4),
                 Timestamp = ParseFloat (matches ! 5), Event = TrimSpace (matches ! 6),
                 Stack = []\<rparr>)
      | None \<Rightarrow>
     (case FindStringSubmatch headerRegex2 4 line of
        Some matches \<Rightarrow>
          (flush st,
           Some \<lparr>Command = TrimSpace (matches ! 1), PID = Atoi (matches ! 2),
                 TID = Atoi (matches ! 2), CPU = 0,
                 Timestamp = ParseFloat (matches ! 3), Event = TrimSpace (matches ! 4),
                 Stack = []\<rparr>)
      | None \<Rightarrow>
     (case snd st of
        None \<Rightarrow> st
      | Some currentSample \<Rightarrow>
          if HasPrefix line [CHR 0x09]
          then (case FindStringSubmatch stackRegex 4 line of
                  Some matches \<Rightarrow>
                    (fst st, Some (currentSample\<lparr>Stack := Stack currentSample @ [frame_of matches]\<rparr>))
                | None \<Rightarrow> st)
          else st)))"

definition ParsePerfScript :: "string \<Rightarrow> string + Sample list" where
  \<comment> \<open>\<open>Inl\<close> is the error, returned with no samples\<close>
  "ParsePerfScript content =
     (let (lines, err) = Scan content;
          samples = flush (foldl parse_line ([], None) lines)
      in case err of
           Some e \<Rightarrow> Inl (''error scanning perf script output: '' @ e)
         | None \<Rightarrow> Inr samples)"

subsection \<open>PartitionByTime\<close>

record TimeWindow =
  StartTime :: float64
  EndTime :: float64
  Duration :: float64
  Samples :: "Sample list"

datatype failure =
    Error string \<comment> \<open>an error value returned to the caller\<close>
  | Panic string \<comment> \<open>a run-time panic\<close>

definition new_window :: "float64 \<Rightarrow> float64 \<Rightarrow> nat \<Rightarrow> TimeWindow" where
  "new_window minTime windowSizeSeconds i =
     (let startTime = fadd minTime (fmul (float64_of_int (int i)) windowSizeSeconds);
          endTime = fadd startTime windowSizeSeconds
      in \<lparr>StartTime = startTime, EndTime = endTime, Duration = windowSizeSeconds, Samples = []\<rparr>)"

fun assign_samples :: "float64 \<Rightarrow> float64 \<Rightarrow> TimeWindow list \<Rightarrow> Sample list \<Rightarrow> TimeWindow list" where
  "assign_samples minTime windowSizeSeconds windows [] = windows"
| "assign_samples minTime windowSizeSeconds windows (sample # rest) =
     (let windowIndex = int_of_float64 (fdiv (fsub (Timestamp sample) minTime) windowSizeSeconds)
      in assign_samples minTime windowSizeSeconds
           (if 0 \<le> windowIndex \<and> windowIndex < int (length windows)
            then windows[nat windowIndex :=
                   (windows ! nat windowIndex)\<lparr>Samples := Samples (windows ! nat windowIndex) @ [sample]\<rparr>]
            else windows)
           rest)"

definition minTimestamp :: "Sample \<Rightarrow> Sample list \<Rightarrow> float64" where
  "minTimestamp s0 samples =
     foldl (\<lambda>minTime sample. if fless (Timestamp sample) minTime then Timestamp sample else minTime)
       (Timestamp s0) samples"

definition maxTimestamp :: "Sample \<Rightarrow> Sample list \<Rightarrow> float64" where
  "maxTimestamp s0 samples =
     foldl (\<lambda>maxTime sample. if fless maxTime (Timestamp sample) then Timestamp sample else maxTime)
       (Timestamp s0) samples"

definition PartitionByTime :: "Sample list \<Rightarrow> float64 \<Rightarrow> failure + TimeWindow list" where
  "PartitionByTime samples windowSizeSeconds =
     (case samples of
        [] \<Rightarrow> Inr []
      | s0 # _ \<Rightarrow>
          let minTime = minTimestamp s0 samples;
              maxTime = maxTimestamp s0 samples;
              totalDuration = fsub maxTime minTime;
              numWindows = int64 (int_of_float64 (fdiv totalDuration windowSizeSeconds) + 1)
          in if numWindows < 0 \<or> maxSliceLen < numWindows
             then Inl (Panic ''runtime error: makeslice: len out of range'')
             else Inr (assign_samples minTime windowSizeSeconds
                         (map (new_window minTime windowSizeSeconds) [0..<nat numWindows])
                         samples))"

section \<open>Window aggregates and pattern detection (internal/heatmap/generator.go)\<close>

text \<open>
  A Go map is modelled by an association list with one entry for each key, in the order
  in which the keys were first stored. Go leaves the order of iteration over a map
  open; the list order is one of the orders it may take. Only \<open>TopFunction\<close> (on a tie)
  depends on it.
\<close>

definition tally :: "('k \<times> int) list \<Rightarrow> 'k \<Rightarrow> int" where
  \<comment> \<open>\<open>m[k]\<close>: 0 for a key that is not stored\<close>
  "tally m k = (case map_of m k of None \<Rightarrow> 0 | Some v \<Rightarrow> v)"

definition incr :: "'k \<Rightarrow> ('k \<times> int) list \<Rightarrow> ('k \<times> int) list" where
  \<comment> \<open>\<open>m[k]++\<close>\<close>
  "incr k m = AList.update k (tally m k + 1) m"

record TimeWindowData =
  WindowIndex :: int
  StartTime :: float64
  EndTime :: float64
  SampleCount :: int
  FunctionCounts :: "(string \<times> int) list"
  ThreadCounts :: "(int \<times> int) list"
  CategoryCounts :: "(string \<times> int) list"
  TopFunction :: string
  TopFunctionPercent :: float64
  KernelPercent :: float64
  UserlandPercent :: float64

record Anomaly =
  WindowIndex :: int
  Type :: string
  Description :: string
  Severity :: string
  Value :: float64

record PatternDetection =
  LockContentionWindows :: "int list"
  HighSyscallWindows :: "int list"
  CPUSpikes :: "int list"
  Anomalies :: "Anomaly list"

record HeatmapData =
  TimeWindows :: "TimeWindowData list"
  Functions :: "string list"
  Threads :: "int list"
  WindowSize :: float64
  TotalDuration :: float64
  TotalSamples :: int
  ProcessName :: string
  PID :: int
  CaptureTimestamp :: string

definition GetTopFrame :: "Sample \<Rightarrow> StackFrame option" where
  "GetTopFrame s = (case Stack s of [] \<Rightarrow> None | frame # _ \<Rightarrow> Some frame)"

subsection \<open>The aggregate of one window (the loop body of GenerateHeatmap)\<close>

definition count_sample :: "TimeWindowData \<times> int \<times> int \<Rightarrow> Sample \<Rightarrow> TimeWindowData \<times> int \<times> int" where
  "count_sample acc sample =
     (let (twd, kernelCount, userlandCount) = acc;
          twd = twd\<lparr>ThreadCounts := incr (TID sample) (ThreadCounts twd)\<rparr>
      in case GetTopFrame sample of
           None \<Rightarrow> (twd, kernelCount, userlandCount)
         | Some frame \<Rightarrow>
             (twd\<lparr>FunctionCounts := incr (Symbol frame) (FunctionCounts twd),
                  CategoryCounts := incr (StackFrame.Type frame) (CategoryCounts twd)\<rparr>,
              if IsKernel frame then kernelCount + 1 else kernelCount,
              if \<not> IsKernel frame \<and> IsUserland frame then userlandCount + 1 else userlandCount))"

definition top_function :: "(string \<times> int) list \<Rightarrow> int \<times> string" where
  \<comment> \<open>the loop that finds \<open>maxCount\<close> and \<open>TopFunction\<close>\<close>
  "top_function counts =
     foldl (\<lambda>(maxCount, top) (fn, count). if count > maxCount then (count, fn) else (maxCount, top))
       (0, []) counts"

definition percent :: "int \<Rightarrow> int \<Rightarrow> float64" where
  \<comment> \<open>\<open>float64(a) / float64(b) * 100\<close>, for \<open>b \<noteq> 0\<close>\<close>
  "percent a b = fmul (fdiv (float64_of_int a) (float64_of_int b)) (Finite 100)"

definition aggregate_window :: "nat \<Rightarrow> TimeWindow \<Rightarrow> TimeWindowData" where
  "aggregate_window i window =
     (let twd0 = \<lparr>TimeWindowData.WindowIndex = int i,
                   TimeWindowData.StartTime = TimeWindow.StartTime window,
                   TimeWindowData.EndTime = TimeWindow.EndTime window,
                   SampleCount = int (length (Samples window)),
                   FunctionCounts = [], ThreadCounts = [], CategoryCounts = [],
                   TopFunction = [], TopFunctionPercent = Finite 0,
                   KernelPercent = Finite 0, UserlandPercent = Finite 0\<rparr>;
          (twd, kernelCount, userlandCount) = foldl count_sample (twd0, 0, 0) (Samples window)
      in if SampleCount twd > 0
         then let (maxCount, top) = top_function (FunctionCounts twd)
              in twd\<lparr>KernelPercent := percent kernelCount (SampleCount twd),
                      UserlandPercent := percent userlandCount (SampleCount twd),
                      TopFunction := top,
                      TopFunctionPercent := percent maxCount (SampleCount twd)\<rparr>
         else twd)"

definition aggregate_windows :: "TimeWindow list \<Rightarrow> TimeWindowData list" where
  "aggregate_windows windows = map (\<lambda>(i, window). aggregate_window i window) (enumerate 0 windows)"

subsection \<open>detectPatterns\<close>

definition findSubstring :: "string \<Rightarrow> string \<Rightarrow> bool" where
  \<comment> \<open>\<open>i\<close> runs from 0 to \<open>len(s) - len(substr)\<close>, over no value when that is negative\<close>
  "findSubstring s substr =
     list_ex (\<lambda>i. list_all (\<lambda>j. s ! (i + j) = substr ! j) [0..<length substr])
       (if length substr \<le> length s then [0..<Suc (length s - length substr)] else [])"

definition containsAny :: "string \<Rightarrow> string list \<Rightarrow> bool" where
  "containsAny s substrs =
     list_ex (\<lambda>substr. length s \<ge> length substr \<and> findSubstring s substr) substrs"

definition lock_markers :: "string list" where
  "lock_markers = [''pthread_mutex'', ''futex'', ''rwlock'', ''__lll_lock'']"

definition lockCount :: "TimeWindowData \<Rightarrow> int" where
  "lockCount window =
     foldl (\<lambda>n (fn, count). if containsAny fn lock_markers then int64 (n + count) else n)
       0 (FunctionCounts window)"

definition check_lock :: "nat \<Rightarrow> TimeWindowData \<Rightarrow> PatternDetection \<Rightarrow> failure + PatternDetection" where
  "check_lock i window patterns =
     (if lockCount window > quo (SampleCount window) 2
      then if SampleCount window = 0
           then Inl (Panic ''runtime error: integer divide by zero'')
           else Inr (patterns\<lparr>
             LockContentionWindows := LockContentionWindows patterns @ [int i],
             Anomalies := Anomalies patterns @
               [\<lparr>Anomaly.WindowIndex = int i, Anomaly.Type = ''lock_contention'',
                 Description = ''High lock contention detected: ''
                    @ show_int (int64 (quo (int64 (lockCount window * 100)) (SampleCount window)))
                    @ ''% of samples'',
                 Severity = ''high'',
                 Value = percent (lockCount window) (SampleCount window)\<rparr>]\<rparr>)
      else Inr patterns)"

definition check_syscall :: "nat \<Rightarrow> TimeWindowData \<Rightarrow> PatternDetection \<Rightarrow> PatternDetection" where
  "check_syscall i window patterns =
     (case map_of (CategoryCounts window) ''kernel_core'' of
        None \<Rightarrow> patterns
      | Some syscallCount \<Rightarrow>
          if syscallCount > quo (int64 (SampleCount window * 70)) 100
          then patterns\<lparr>
             HighSyscallWindows := HighSyscallWindows patterns @ [int i],
             Anomalies := Anomalies patterns @
               [\<lparr>Anomaly.WindowIndex = int i, Anomaly.Type = ''high_syscall'',
                 Description = ''High kernel/syscall activity: ''
                    @ show_fixed 1 (KernelPercent window) @ ''%'',
                 Severity = ''medium'',
                 Value = KernelPercent window\<rparr>]\<rparr>
          else patterns)"

definition check_spike :: "float64 \<Rightarrow> nat \<Rightarrow> TimeWindowData \<Rightarrow> PatternDetection \<Rightarrow> PatternDetection" where
  "check_spike avgSamples i window patterns =
     (if fless (fmul avgSamples (Finite (3 / 2))) (float64_of_int (SampleCount window))
      then patterns\<lparr>
         CPUSpikes := CPUSpikes patterns @ [int i],
         Anomalies := Anomalies patterns @
           [\<lparr>Anomaly.WindowIndex = int i, Anomaly.Type = ''cpu_spike'',
             Description = ''CPU usage spike: '' @ show_int (SampleCount window)
                @ '' samples (avg: '' @ show_fixed 0 avgSamples @ '')'',
             Severity = ''medium'',
             Value = float64_of_int (SampleCount window)\<rparr>]\<rparr>
      else patterns)"

fun analyze_windows :: "float64 \<Rightarrow> PatternDetection \<Rightarrow> (nat \<times> TimeWindowData) list
    \<Rightarrow> failure + PatternDetection" where
  "analyze_windows avgSamples patterns [] = Inr patterns"
| "analyze_windows avgSamples patterns ((i, window) # rest) =
     (case check_lock i window patterns of
        Inl f \<Rightarrow> Inl f
      | Inr patterns1 \<Rightarrow>
          analyze_windows avgSamples
            (check_spike avgSamples i window (check_syscall i window patterns1)) rest)"

definition detectPatterns :: "TimeWindowData list \<Rightarrow> failure + PatternDetection" where
  \<comment> \<open>with no window \<open>avgSamples\<close> is 0/0, a NaN, and the loop has nothing to compare it with\<close>
  "detectPatterns windows =
     (let patterns = \<lparr>LockContentionWindows = [], HighSyscallWindows = [], CPUSpikes = [],
                       Anomalies = []\<rparr>;
          totalSamples = foldl (\<lambda>n w. int64 (n + SampleCount w)) 0 windows;
          avgSamples = fdiv (float64_of_int totalSamples) (float64_of_int (int (length windows)))
      in analyze_windows avgSamples patterns (enumerate 0 windows))"

subsection \<open>GenerateHeatmap\<close>

text \<open>
  What \<open>GenerateHeatmap\<close> does to the world outside (it renders an HTML template into a
  file, encodes two values as JSON and writes two more files) is a parameter: \<open>'w\<close> is
  the state of the file system and the terminal, and a \<open>host\<close> gives the effect of each
  call and the error it returns, if any.
\<close>

record 'w host =
  generateHTMLHeatmap :: "HeatmapData \<Rightarrow> PatternDetection \<Rightarrow> string \<Rightarrow> 'w \<Rightarrow> string option \<times> 'w"
  MarshalHeatmapData :: "HeatmapData \<Rightarrow> string + string"
  MarshalPatterns :: "PatternDetection \<Rightarrow> string + string"
  WriteFile :: "string \<Rightarrow> string \<Rightarrow> 'w \<Rightarrow> string option \<times> 'w"
  Join :: "string \<Rightarrow> string \<Rightarrow> string"

definition write_json :: "'w host \<Rightarrow> string \<Rightarrow> string + string \<Rightarrow> string \<Rightarrow> string \<Rightarrow> 'w
    \<Rightarrow> failure option \<times> 'w" where
  \<comment> \<open>encode, then write: the two error returns of each JSON file\<close>
  "write_json h path encoded marshalError writeError world =
     (case encoded of
        Inl err \<Rightarrow> (Some (Error (marshalError @ err)), world)
      | Inr bytes \<Rightarrow>
          (case WriteFile h path bytes world of
             (Some err, world') \<Rightarrow> (Some (Error (writeError @ err)), world')
           | (None, world') \<Rightarrow> (None, world')))"

definition GenerateHeatmap :: "'w host \<Rightarrow> Sample list \<Rightarrow> string \<Rightarrow> string \<Rightarrow> int \<Rightarrow> float64 \<Rightarrow> 'w
    \<Rightarrow> failure option \<times> 'w" where
  "GenerateHeatmap h samples outputDir processName pid windowSize world =
     (if length samples = 0 then (Some (Error ''no samples to analyze''), world)
      else case PartitionByTime samples windowSize of
        Inl f \<Rightarrow> (Some f, world)
      | Inr windows \<Rightarrow>
          let functions = sort (remdups (map Symbol (List.map_filter GetTopFrame samples)));
              threads = sort (remdups (map TID samples));
              totalDuration = (if length windows > 0
                               then fsub (TimeWindow.EndTime (last windows))
                                         (TimeWindow.StartTime (hd windows))
                               else Finite 0);
              timeWindowsData = aggregate_windows windows;
              heatmapData = \<lparr>TimeWindows = timeWindowsData, Functions = functions,
                               Threads = threads, WindowSize = windowSize,
                               TotalDuration = totalDuration,
                               TotalSamples = int (length samples),
                               ProcessName = processName, HeatmapData.PID = pid, CaptureTimestamp = []\<rparr>
          in case detectPatterns timeWindowsData of
               Inl f \<Rightarrow> (Some f, world)
             | Inr patterns \<Rightarrow>
                 (case generateHTMLHeatmap h heatmapData patterns outputDir world of
                    (Some err, world1) \<Rightarrow>
                      (Some (Error (''error generating HTML heatmap: '' @ err)), world1)
                  | (None, world1) \<Rightarrow>
                      (case write_json h (Join h outputDir ''heatmap-data.json'')
                              (MarshalHeatmapData h heatmapData)
                              ''error marshaling heatmap data: ''
                              ''error writing heatmap JSON: '' world1 of
                         (Some f, world2) \<Rightarrow> (Some f, world2)
                       | (None, world2) \<Rightarrow>
                           write_json h (Join h outputDir ''patterns.json'')
                             (MarshalPatterns h patterns)
                             ''error marshaling patterns: ''
                             ''error writing patterns JSON: '' world2)))"

section \<open>Predicates and example inputs used in the statements\<close>

text \<open>A line that none of the three patterns matches, and a line that is not a header.\<close>

definition unrecognized :: "string \<Rightarrow> bool" where
  "unrecognized line = (FindStringSubmatch headerRegex1 6 line = None
     \<and> FindStringSubmatch headerRegex2 4 line = None
     \<and> FindStringSubmatch stackRegex 4 line = None)"

definition no_header :: "string \<Rightarrow> bool" where
  "no_header line = (FindStringSubmatch headerRegex1 6 line = None
     \<and> FindStringSubmatch headerRegex2 4 line = None)"

text \<open>The frames of those lines of a block that begin with a tab and match the
  stack-frame pattern, in the order of the lines.\<close>

definition frame_lines :: "string list \<Rightarrow> StackFrame list" where
  "frame_lines ls =
     map frame_of
       (List.map_filter
          (\<lambda>l. if HasPrefix l [CHR 0x09] then FindStringSubmatch stackRegex 4 l else None) ls)"

text \<open>The frames of a sample, and of a state of the parsing loop, carry at most one of
  the two flags.\<close>

definition frames_exclusive :: "Sample \<Rightarrow> bool" where
  "frames_exclusive s = (\<forall>f \<in> set (Stack s). \<not> (IsKernel f \<and> IsUserland f))"

definition state_exclusive :: "parser_state \<Rightarrow> bool" where
  "state_exclusive st = ((\<forall>s \<in> set (fst st). frames_exclusive s)
     \<and> (case snd st of None \<Rightarrow> True | Some s \<Rightarrow> frames_exclusive s))"

text \<open>The header of the first format with three frame lines, each indented by a tab
  and four spaces, and the sample it stands for.\<close>

definition example_header :: string where
  "example_header = ''mysqld 12345/12346 [001] 123456.789012: 999999 cpu-clock:''"

definition example_line1 :: string where
  "example_line1 = CHR 0x09 # ''    7ffff7a0d000 __pthread_mutex_lock+0x0 (/lib/x86_64-linux-gnu/libpthread-2.31.so)''"

definition example_line2 :: string where
  "example_line2 = CHR 0x09 # ''    55555560abcd handle_connection+0x123 (/usr/sbin/mysqld)''"

definition example_line3 :: string where
  "example_line3 = CHR 0x09 # ''    ffffffff81234567 do_syscall_64+0x57 ([kernel.kallsyms])''"

definition example_input :: string where
  "example_input = example_header @ [CHR 0x0A] @ example_line1 @ [CHR 0x0A]
     @ example_line2 @ [CHR 0x0A] @ example_line3 @ [CHR 0x0A]"

definition example_frame1 :: StackFrame where
  "example_frame1 =
     \<lparr>Address = ''7ffff7a0d000'', Symbol = ''__pthread_mutex_lock'',
       Module = ''/lib/x86_64-linux-gnu/libpthread-2.31.so'', Offset = ''0'',
       Type = ''libpthread'', IsKernel = False, IsUserland = True\<rparr>"

definition example_frame2 :: StackFrame where
  "example_frame2 =
     \<lparr>Address = ''55555560abcd'', Symbol = ''handle_connection'',
       Module = ''/usr/sbin/mysqld'', Offset = ''123'',
       Type = ''libmysql'', IsKernel = False, IsUserland = True\<rparr>"

definition example_frame3 :: StackFrame where
  "example_frame3 =
     \<lparr>Address = ''ffffffff81234567'', Symbol = ''do_syscall_64'',
       Module = ''[kernel.kallsyms]'', Offset = ''57'',
       Type = ''kernel_core'', IsKernel = True, IsUserland = False\<rparr>"

definition example_sample :: "StackFrame list \<Rightarrow> Sample" where
  "example_sample frames = \<lparr>Command = ''mysqld'', PID = 12345, TID = 12346, CPU = 1,
     Timestamp = Finite (4241942970205697 / 34359738368), Event = ''cpu-clock'', Stack = frames\<rparr>"

text \<open>The first frame line without its tab, and the header followed by it; three lines
  that are no perf script output; two frames of the threading library, one under a
  directory whose name contains \<open>libc\<close>.\<close>

definition space_indented_line :: string where
  "space_indented_line = ''    7ffff7a0d000 __pthread_mutex_lock+0x0 (/lib/x86_64-linux-gnu/libpthread-2.31.so)''"

definition space_indented_input :: string where
  "space_indented_input = example_header @ [CHR 0x0A] @ space_indented_line @ [CHR 0x0A]"

definition malformed_input :: string where
  "malformed_input = ''this is not valid perf script output'' @ [CHR 0x0A]
     @ ''random text here'' @ [CHR 0x0A] @ ''12345 more random stuff''"

definition compat_frame :: StackFrame where
  "compat_frame = \<lparr>Address = ''7ffff7a0d000'', Symbol = ''pthread_mutex_lock'',
     Module = ''/usr/glibc-compat/lib/libpthread.so.0'', Offset = ''0'',
     Type = [], IsKernel = False, IsUserland = False\<rparr>"

definition pthread_frame :: StackFrame where
  "pthread_frame = \<lparr>Address = ''7ffff7a0d000'', Symbol = ''pthread_mutex_lock'',
     Module = ''/lib/x86_64-linux-gnu/libpthread-2.31.so'', Offset = ''0'',
     Type = [], IsKernel = False, IsUserland = False\<rparr>"

text \<open>A frame whose module opens a bracket and does not close it.\<close>

definition bracket_frame :: StackFrame where
  "bracket_frame = \<lparr>Address = ''7ffe5a1f2000'', Symbol = ''[unknown]'',
     Module = ''[vdso'', Offset = [],
     Type = [], IsKernel = False, IsUserland = False\<rparr>"

text \<open>
  The tallies that \<open>detectPatterns\<close> reads from an aggregate do not exceed its sample
  count. Every aggregate that \<open>GenerateHeatmap\<close> computes is of this kind
  (\<open>aggregate_windows_bounded\<close> below).
\<close>

definition tallies_bounded :: "TimeWindowData \<Rightarrow> bool" where
  "tallies_bounded w = (0 \<le> SampleCount w \<and> lockCount w \<le> SampleCount w
     \<and> tally (CategoryCounts w) ''kernel_core'' \<le> SampleCount w)"

text \<open>
  The sum of the tallies of the lock-related function names, as a number. An aggregate
  whose sum is within its sample count, and whose sample count is one that a slice of
  samples can have.
\<close>

definition lock_tally :: "TimeWindowData \<Rightarrow> int" where
  "lock_tally w =
     sum_list (map snd (filter (\<lambda>p. containsAny (fst p) lock_markers) (FunctionCounts w)))"

definition lock_tally_bounded :: "TimeWindowData \<Rightarrow> bool" where
  "lock_tally_bounded w = (0 \<le> lock_tally w \<and> lock_tally w \<le> SampleCount w
     \<and> SampleCount w \<le> maxSliceLen)"

text \<open>The three tests of the loop of \<open>detectPatterns\<close>, what the loop appends for one
  window, and the indices of the windows that pass a test.\<close>

definition lock_test :: "TimeWindowData \<Rightarrow> bool" where
  "lock_test w = (lockCount w > quo (SampleCount w) 2)"

definition syscall_test :: "TimeWindowData \<Rightarrow> bool" where
  "syscall_test w =
     (case map_of (CategoryCounts w) ''kernel_core'' of
        None \<Rightarrow> False
      | Some syscallCount \<Rightarrow> syscallCount > quo (int64 (SampleCount w * 70)) 100)"

definition spike_test :: "float64 \<Rightarrow> TimeWindowData \<Rightarrow> bool" where
  "spike_test avg w = fless (fmul avg (Finite (3 / 2))) (float64_of_int (SampleCount w))"

definition lock_anomalies :: "nat \<Rightarrow> TimeWindowData \<Rightarrow> Anomaly list" where
  "lock_anomalies i w = (if lock_test w
     then [\<lparr>Anomaly.WindowIndex = int i, Anomaly.Type = ''lock_contention'',
            Description = ''High lock contention detected: ''
                    @ show_int (int64 (quo (int64 (lockCount w * 100)) (SampleCount w)))
                    @ ''% of samples'',
            Severity = ''high'', Value = percent (lockCount w) (SampleCount w)\<rparr>] else [])"

definition syscall_anomalies :: "nat \<Rightarrow> TimeWindowData \<Rightarrow> Anomaly list" where
  "syscall_anomalies i w = (if syscall_test w
     then [\<lparr>Anomaly.WindowIndex = int i, Anomaly.Type = ''high_syscall'',
            Description = ''High kernel/syscall activity: '' @ show_fixed 1 (KernelPercent w) @ ''%'',
            Severity = ''medium'', Value = KernelPercent w\<rparr>] else [])"

definition spike_anomalies :: "float64 \<Rightarrow> nat \<Rightarrow> TimeWindowData \<Rightarrow> Anomaly list" where
  "spike_anomalies avg i w = (if spike_test avg w
     then [\<lparr>Anomaly.WindowIndex = int i, Anomaly.Type = ''cpu_spike'',
            Description = ''CPU usage spike: '' @ show_int (SampleCount w)
                @ '' samples (avg: '' @ show_fixed 0 avg @ '')'',
            Severity = ''medium'', Value = float64_of_int (SampleCount w)\<rparr>] else [])"

definition window_anomalies :: "float64 \<Rightarrow> nat \<times> TimeWindowData \<Rightarrow> Anomaly list" where
  "window_anomalies avg iw = lock_anomalies (fst iw) (snd iw) @ syscall_anomalies (fst iw) (snd iw)
     @ spike_anomalies avg (fst iw) (snd iw)"

definition avgSamples :: "TimeWindowData list \<Rightarrow> float64" where
  "avgSamples windows =
     fdiv (float64_of_int (foldl (\<lambda>n w. int64 (n + SampleCount w)) 0 windows))
          (float64_of_int (int (length windows)))"

definition flagged :: "(TimeWindowData \<Rightarrow> bool) \<Rightarrow> TimeWindowData list \<Rightarrow> int list" where
  "flagged P windows = map (\<lambda>iw. int (fst iw)) (filter (\<lambda>iw. P (snd iw)) (enumerate 0 windows))"

definition all_anomalies :: "TimeWindowData list \<Rightarrow> Anomaly list" where
  "all_anomalies windows = concat (map (window_anomalies (avgSamples windows)) (enumerate 0 windows))"

text \<open>The exact mean of the sample counts.\<close>

definition mean_samples :: "TimeWindowData list \<Rightarrow> rat" where
  "mean_samples windows = of_int (sum_list (map SampleCount windows)) / of_nat (length windows)"

text \<open>Aggregates of 100 samples at the two thresholds, and of none.\<close>

definition lock51 :: TimeWindowData where
  "lock51 = \<lparr>TimeWindowData.WindowIndex = 0, TimeWindowData.StartTime = Finite 0,
     TimeWindowData.EndTime = Finite 1,
     SampleCount = 100,
     FunctionCounts = [(''pthread_mutex_lock'', 51), (''other_function'', 49)],
     ThreadCounts = [(1, 100)],
     CategoryCounts = [(''libpthread'', 51), (''application'', 49)],
     TopFunction = ''pthread_mutex_lock'', TopFunctionPercent = Finite 51,
     KernelPercent = Finite 0, UserlandPercent = Finite 100\<rparr>"

definition lock50 :: TimeWindowData where
  "lock50 = \<lparr>TimeWindowData.WindowIndex = 1, TimeWindowData.StartTime = Finite 1,
     TimeWindowData.EndTime = Finite 2,
     SampleCount = 100,
     FunctionCounts = [(''futex_wait'', 50), (''other_function'', 50)],
     ThreadCounts = [(1, 100)],
     CategoryCounts = [(''kernel_core'', 50), (''application'', 50)],
     TopFunction = ''futex_wait'', TopFunctionPercent = Finite 50,
     KernelPercent = Finite 50, UserlandPercent = Finite 50\<rparr>"

definition kernel70 :: TimeWindowData where
  "kernel70 = \<lparr>TimeWindowData.WindowIndex = 0, TimeWindowData.StartTime = Finite 0,
     TimeWindowData.EndTime = Finite 1,
     SampleCount = 100,
     FunctionCounts = [(''do_syscall_64'', 70), (''main'', 30)],
     ThreadCounts = [(1, 100)],
     CategoryCounts = [(''kernel_core'', 70), (''application'', 30)],
     TopFunction = ''do_syscall_64'', TopFunctionPercent = Finite 70,
     KernelPercent = Finite 70, UserlandPercent = Finite 30\<rparr>"

definition kernel71 :: TimeWindowData where
  "kernel71 = \<lparr>TimeWindowData.WindowIndex = 1, TimeWindowData.StartTime = Finite 1,
     TimeWindowData.EndTime = Finite 2,
     SampleCount = 100,
     FunctionCounts = [(''do_syscall_64'', 71), (''main'', 29)],
     ThreadCounts = [(1, 100)],
     CategoryCounts = [(''kernel_core'', 71), (''application'', 29)],
     TopFunction = ''do_syscall_64'', TopFunctionPercent = Finite 71,
     KernelPercent = Finite 71, UserlandPercent = Finite 29\<rparr>"

definition no_samples :: TimeWindowData where
  "no_samples = \<lparr>TimeWindowData.WindowIndex = 0, TimeWindowData.StartTime = Finite 0,
     TimeWindowData.EndTime = Finite 1,
     SampleCount = 0, FunctionCounts = [], ThreadCounts = [], CategoryCounts = [],
     TopFunction = [], TopFunctionPercent = Finite 0, KernelPercent = Finite 0,
     UserlandPercent = Finite 0\<rparr>"

text \<open>
  The number of samples whose leaf frame has a property; the leaf frames whose symbol
  is lock-related and those of category \<open>kernel_core\<close>; a window of \<open>n\<close>
  samples with one leaf frame followed by \<open>m\<close> samples with another.
\<close>

definition leaf_count :: "(StackFrame \<Rightarrow> bool) \<Rightarrow> Sample list \<Rightarrow> int" where
  "leaf_count P samples =
     int (length (filter (\<lambda>s. case GetTopFrame s of None \<Rightarrow> False | Some frame \<Rightarrow> P frame) samples))"

definition lock_related :: "StackFrame \<Rightarrow> bool" where
  "lock_related frame = containsAny (Symbol frame) lock_markers"

definition in_kernel_core :: "StackFrame \<Rightarrow> bool" where
  "in_kernel_core frame = (StackFrame.Type frame = ''kernel_core'')"

definition leaf_window :: "nat \<Rightarrow> StackFrame \<Rightarrow> nat \<Rightarrow> StackFrame \<Rightarrow> TimeWindow" where
  "leaf_window n frame m other =
     \<lparr>TimeWindow.StartTime = Finite 0, TimeWindow.EndTime = Finite 1, Duration = Finite 1,
       Samples = replicate n (example_sample [frame]) @ replicate m (example_sample [other])\<rparr>"

text \<open>
  The rationals that are finite float64 values, and the float64 values that are
  finite. The least and the greatest timestamp of a sequence of samples with finite
  timestamps, and the window index of a sample as \<open>PartitionByTime\<close> computes it. Two
  samples 0.3 s apart and the float64 nearest to 0.1.
\<close>

definition is_float64 :: "rat \<Rightarrow> bool" where
  "is_float64 x = (round64 x = Finite x)"

definition finite_float64 :: "float64 \<Rightarrow> bool" where
  "finite_float64 v = (case v of Finite x \<Rightarrow> is_float64 x | _ \<Rightarrow> False)"

definition the_rat :: "float64 \<Rightarrow> rat" where
  "the_rat v = (case v of Finite x \<Rightarrow> x | _ \<Rightarrow> 0)"

definition min_of :: "Sample list \<Rightarrow> rat" where
  "min_of samples = Min ((\<lambda>s. the_rat (Timestamp s)) ` set samples)"

definition max_of :: "Sample list \<Rightarrow> rat" where
  "max_of samples = Max ((\<lambda>s. the_rat (Timestamp s)) ` set samples)"

definition window_index :: "rat \<Rightarrow> rat \<Rightarrow> Sample \<Rightarrow> int" where
  "window_index minTime windowSizeSeconds sample =
     \<lfloor>the_rat (fdiv (fsub (Timestamp sample) (Finite minTime)) (Finite windowSizeSeconds))\<rfloor>"

definition sample_at :: "rat \<Rightarrow> Sample" where
  "sample_at t = \<lparr>Command = ''test'', PID = 1, TID = 1, CPU = 0, Timestamp = Finite t,
     Event = ''cpu-clock'', Stack = []\<rparr>"

definition tenth :: rat where
  \<comment> \<open>the float64 nearest to 0.1\<close>
  "tenth = 3602879701896397 / 36028797018963968"

definition t100_3 :: rat where
  \<comment> \<open>the float64 nearest to 100.3\<close>
  "t100_3 = 7057985041019699 / 70368744177664"

section \<open>Properties of the rounding to float64\<close>

lemma binade_bounds:
  assumes "0 < x"
  shows "2 powi binade x \<le> x" and "x < 2 powi (binade x + 1)"
proof -
  have "2 powi binade x \<le> x \<and> x < 2 powi (binade x + 1)"
  proof (cases "1 \<le> x")
    case True
    define n where "n = \<lfloor>x\<rfloor>"
    have n: "0 < n" using True by (simp add: n_def)
    have e: "binade x = bitlen n - 1" using True assms by (simp add: binade_def n_def)
    have b1: "1 \<le> bitlen n" using n by (simp add: bitlen_alt_def)
    from bitlen_bounds[OF n] have lo: "(2::int) ^ nat (bitlen n - 1) \<le> n" and hi: "n < 2 ^ nat (bitlen n)" by auto
    have "of_int ((2::int) ^ nat (bitlen n - 1)) \<le> (of_int n :: rat)" using lo by (simp only: of_int_le_iff)
    also have "\<dots> \<le> x" unfolding n_def by linarith
    finally have L: "2 powi (bitlen n - 1) \<le> x" using b1 by (simp add: power_int_nonneg_exp)
    have "n + 1 \<le> 2 ^ nat (bitlen n)" using hi by simp
    then have "(of_int (n + 1) :: rat) \<le> of_int (2 ^ nat (bitlen n))" by (simp only: of_int_le_iff)
    moreover have "x < of_int (n + 1)" unfolding n_def by linarith
    ultimately have "x < of_int ((2::int) ^ nat (bitlen n))" by linarith
    then have U: "x < 2 powi (bitlen n - 1 + 1)" using b1 by (simp add: power_int_nonneg_exp)
    show ?thesis using L U e by simp
  next
    case False
    define y where "y = 1 / x"
    define m where "m = \<lceil>y\<rceil> - 1"
    have y1: "1 < y" using False assms by (simp add: y_def)
    have m: "0 < m" using y1 by (simp add: m_def less_ceiling_iff)
    have e: "binade x = - bitlen m" using False assms by (simp add: binade_def m_def y_def)
    have b1: "1 \<le> bitlen m" using m by (simp add: bitlen_alt_def)
    from bitlen_bounds[OF m] have lo: "(2::int) ^ nat (bitlen m - 1) \<le> m" and hi: "m < 2 ^ nat (bitlen m)" by auto
    have "m + 1 \<le> 2 ^ nat (bitlen m)" using hi by simp
    then have "(of_int (m + 1) :: rat) \<le> of_int (2 ^ nat (bitlen m))" by (simp only: of_int_le_iff)
    moreover have "y \<le> of_int (m + 1)" unfolding m_def by linarith
    ultimately have "y \<le> 2 ^ nat (bitlen m)" by simp
    then have "1 / x \<le> 2 powi (bitlen m)" using b1 by (simp add: power_int_nonneg_exp y_def)
    then have L: "2 powi (- bitlen m) \<le> x" using assms
      by (simp add: power_int_minus field_simps)
    have "of_int m < y" unfolding m_def by linarith
    moreover have "(2::rat) ^ nat (bitlen m - 1) \<le> of_int m"
      using lo by (metis of_int_le_iff of_int_numeral of_int_power)
    ultimately have "2 ^ nat (bitlen m - 1) < y" by linarith
    then have "2 powi (bitlen m - 1) < 1 / x" using b1 by (simp add: power_int_nonneg_exp y_def)
    then have "x < 1 / 2 powi (bitlen m - 1)" using assms
      by (simp add: field_simps)
    then have U: "x < 2 powi (- bitlen m + 1)"
      by (metis add.commute minus_diff_eq power_int_minus_divide uminus_add_conv_diff)
    show ?thesis using L U e by simp
  qed
  then show "2 powi binade x \<le> x" and "x < 2 powi (binade x + 1)" by auto
qed

lemma binade_mono:
  assumes "0 < x" "x \<le> y"
  shows "binade x \<le> binade y"
proof (rule ccontr)
  assume "\<not> binade x \<le> binade y"
  then have "binade y + 1 \<le> binade x" by simp
  then have "(2::rat) powi (binade y + 1) \<le> 2 powi binade x"
    by (simp add: power_int_increasing)
  moreover have "y < 2 powi (binade y + 1)" using binade_bounds(2)[of y] assms by simp
  moreover have "2 powi binade x \<le> x" using binade_bounds(1)[OF assms(1)] .
  ultimately show False using assms by linarith
qed

lemma round_half_even_of_int [simp]: "round_half_even (of_int n) = n"
  by (simp add: round_half_even_def)

lemma round_half_even_numeral [simp]: "round_half_even (numeral k) = numeral k"
  using round_half_even_of_int[of "numeral k"] by simp

lemma round_half_even_floor_le: "\<lfloor>x\<rfloor> \<le> round_half_even x"
  by (simp add: round_half_even_def Let_def)

lemma round_half_even_le_floor: "round_half_even x \<le> \<lfloor>x\<rfloor> + 1"
  by (simp add: round_half_even_def Let_def)

lemma round_half_even_mono:
  assumes "x \<le> y"
  shows "round_half_even x \<le> round_half_even y"
proof (cases "\<lfloor>x\<rfloor> = \<lfloor>y\<rfloor>")
  case True
  then show ?thesis using assms by (auto simp add: round_half_even_def Let_def)
next
  case False
  then have "\<lfloor>x\<rfloor> + 1 \<le> \<lfloor>y\<rfloor>" using floor_mono[OF assms] by simp
  then show ?thesis
    using round_half_even_le_floor[of x] round_half_even_floor_le[of y] by linarith
qed

lemma round_half_even_error: "\<bar>of_int (round_half_even x) - x\<bar> \<le> 1 / 2"
  unfolding round_half_even_def Let_def by (auto simp add: abs_if) linarith+

lemma nearest_zero [simp]: "nearest 0 = 0"
  by (simp add: nearest_def)

lemma nearest_upper:
  assumes "0 < x"
  shows "nearest x \<le> 2 powi (max (binade x) (- 1022) + 1)"
proof -
  define e where "e = max (binade x) (- 1022)"
  define u :: rat where "u = 2 powi (e - 52)"
  have u: "0 < u" by (simp add: u_def)
  have f: "nearest x = of_int (round_half_even (x / u)) * u"
    using assms by (simp add: nearest_def Let_def u_def e_def)
  have hi: "2 powi (e + 1) = 2 ^ 53 * u"
    by (simp add: u_def power_int_diff power_int_add)
  have "(2::rat) powi (binade x + 1) \<le> 2 powi (e + 1)"
    by (intro power_int_increasing) (simp_all add: e_def)
  then have "x \<le> 2 ^ 53 * u" using binade_bounds(2)[OF assms] hi by linarith
  then have "x / u \<le> of_int (2 ^ 53)" using u by (simp add: field_simps)
  from round_half_even_mono[OF this] have "round_half_even (x / u) \<le> 2 ^ 53" by simp
  then have "(of_int (round_half_even (x / u)) :: rat) \<le> of_int (2 ^ 53)" by (simp only: of_int_le_iff)
  then have "of_int (round_half_even (x / u)) * u \<le> 2 ^ 53 * u" using u by simp
  then show ?thesis using f hi by (simp add: e_def)
qed

lemma nearest_lower:
  assumes "0 < x" "- 1022 \<le> binade x"
  shows "2 powi binade x \<le> nearest x"
proof -
  define e where "e = binade x"
  define u :: rat where "u = 2 powi (e - 52)"
  have u: "0 < u" by (simp add: u_def)
  have m: "max (binade x) (- 1022) = e" using assms(2) by (simp add: e_def)
  have f: "nearest x = of_int (round_half_even (x / u)) * u"
    using assms(1) by (simp add: nearest_def Let_def u_def m)
  have lo: "2 powi e = 2 ^ 52 * u"
    by (simp add: u_def power_int_diff)
  have "2 ^ 52 * u \<le> x" using binade_bounds(1)[OF assms(1)] lo by (simp add: e_def)
  then have "of_int (2 ^ 52) \<le> x / u" using u by (simp add: field_simps)
  from round_half_even_mono[OF this] have "2 ^ 52 \<le> round_half_even (x / u)" by simp
  then have "(of_int (2 ^ 52) :: rat) \<le> of_int (round_half_even (x / u))" by (simp only: of_int_le_iff)
  then have "2 ^ 52 * u \<le> of_int (round_half_even (x / u)) * u" using u by simp
  then show ?thesis using f lo by (simp add: e_def)
qed

lemma nearest_nonneg:
  assumes "0 \<le> x"
  shows "0 \<le> nearest x"
proof (cases "x = 0")
  case True
  then show ?thesis by simp
next
  case False
  define u :: rat where "u = 2 powi (max (binade x) (- 1022) - 52)"
  have u: "0 < u" by (simp add: u_def)
  have "0 \<le> x / u" using assms u by simp
  from round_half_even_mono[OF this] have "0 \<le> round_half_even (x / u)"
    by (simp add: round_half_even_def)
  then have "0 \<le> of_int (round_half_even (x / u)) * u" using u by simp
  then show ?thesis using False by (simp add: nearest_def Let_def u_def)
qed

lemma nearest_mono_pos:
  assumes "0 < x" "x \<le> y"
  shows "nearest x \<le> nearest y"
proof (cases "max (binade x) (- 1022) = max (binade y) (- 1022)")
  case True
  define u :: rat where "u = 2 powi (max (binade x) (- 1022) - 52)"
  have u: "0 < u" by (simp add: u_def)
  have "x / u \<le> y / u" using assms u by (simp add: divide_right_mono)
  from round_half_even_mono[OF this]
  have "(of_int (round_half_even (x / u)) :: rat) \<le> of_int (round_half_even (y / u))"
    by (simp only: of_int_le_iff)
  then have "of_int (round_half_even (x / u)) * u \<le> of_int (round_half_even (y / u)) * u"
    using u by simp
  then show ?thesis using assms True by (simp add: nearest_def Let_def u_def)
next
  case False
  have b: "binade x \<le> binade y" using binade_mono[OF assms] .
  then have lt: "max (binade x) (- 1022) + 1 \<le> binade y" and n: "- 1022 \<le> binade y"
    using False by auto
  have "(2::rat) powi (max (binade x) (- 1022) + 1) \<le> 2 powi binade y"
    using lt by (intro power_int_increasing) simp_all
  moreover have "nearest x \<le> 2 powi (max (binade x) (- 1022) + 1)" using nearest_upper[OF assms(1)] .
  moreover have "2 powi binade y \<le> nearest y" using nearest_lower[of y] assms n by simp
  ultimately show ?thesis by linarith
qed

lemma nearest_mono_nonneg: "0 \<le> x \<Longrightarrow> x \<le> y \<Longrightarrow> nearest x \<le> nearest y"
  using nearest_mono_pos[of x y] nearest_nonneg[of y] by (cases "x = 0") auto

lemma nearest_error:
  assumes "x \<noteq> 0"
  shows "\<bar>nearest x - x\<bar> \<le> 2 powi (max (binade x) (- 1022) - 53)"
proof -
  define u :: rat where "u = 2 powi (max (binade x) (- 1022) - 52)"
  have u: "0 < u" by (simp add: u_def)
  have f: "nearest x = of_int (round_half_even (x / u)) * u"
    using assms by (simp add: nearest_def Let_def u_def)
  have "nearest x - x = (of_int (round_half_even (x / u)) - x / u) * u"
    using u by (simp add: f field_simps)
  then have "\<bar>nearest x - x\<bar> = \<bar>of_int (round_half_even (x / u)) - x / u\<bar> * u"
    using u by (simp add: abs_mult)
  also have "\<dots> \<le> 1 / 2 * u"
    using round_half_even_error[of "x / u"] u by (intro mult_right_mono) simp_all
  also have "\<dots> = 2 powi (max (binade x) (- 1022) - 53)"
    by (simp add: u_def power_int_diff)
  finally show ?thesis .
qed

lemma binade_le:
  assumes "0 < x" "x \<le> 2 powi k"
  shows "binade x \<le> k"
proof (rule ccontr)
  assume "\<not> binade x \<le> k"
  then have "k + 1 \<le> binade x" by simp
  then have "(2::rat) powi (k + 1) \<le> 2 powi binade x" by (intro power_int_increasing) simp_all
  moreover have "(2::rat) powi k < 2 powi (k + 1)" by (intro power_int_strict_increasing) simp_all
  ultimately show False using binade_bounds(1)[OF assms(1)] assms(2) by linarith
qed

lemma nearest_error_le:
  assumes "0 < x" "x \<le> 2 powi k" "- 1022 \<le> k"
  shows "\<bar>nearest x - x\<bar> \<le> 2 powi (k - 53)"
proof -
  have "max (binade x) (- 1022) \<le> k" using binade_le[OF assms(1,2)] assms(3) by simp
  then have "(2::rat) powi (max (binade x) (- 1022) - 53) \<le> 2 powi (k - 53)"
    by (intro power_int_increasing) simp_all
  then show ?thesis using nearest_error[of x] assms(1) by linarith
qed

lemma nearest_of_nat_exact:
  assumes "n < 2 ^ 53"
  shows "nearest (of_nat n) = of_nat n"
proof (cases "n = 0")
  case True
  then show ?thesis by simp
next
  case False
  define x :: rat where "x = of_nat n"
  define e where "e = binade x"
  have x0: "0 < x" and x1: "1 \<le> x" using False by (simp_all add: x_def)
  have "(of_nat n :: rat) < of_nat (2 ^ 53)" using assms by (simp only: of_nat_less_iff)
  then have x53: "x < 2 powi 53" by (simp add: x_def)
  have e0: "0 \<le> e"
  proof (rule ccontr)
    assume "\<not> 0 \<le> e"
    then have "e + 1 \<le> 0" by simp
    then have "(2::rat) powi (e + 1) \<le> 2 powi 0" by (intro power_int_increasing) simp_all
    then show False using binade_bounds(2)[OF x0] x1 by (simp add: e_def)
  qed
  have e52: "e \<le> 52"
  proof (rule ccontr)
    assume "\<not> e \<le> 52"
    then have "53 \<le> e" by simp
    then have "(2::rat) powi 53 \<le> 2 powi e" by (intro power_int_increasing) simp_all
    then show False using binade_bounds(1)[OF x0] x53 by (simp add: e_def)
  qed
  define k where "k = nat (52 - e)"
  have "e - 52 = - int k" using e52 by (simp add: k_def)
  then have "(2::rat) powi (e - 52) = 2 powi (- int k)" by simp
  then have u: "(2::rat) powi (e - 52) = 1 / 2 ^ k"
    by (simp only: power_int_minus power_int_of_nat inverse_eq_divide)
  have m: "max (binade x) (- 1022) = e" using e0 by (simp add: e_def)
  have "x / (1 / 2 ^ k) = of_int (int n * 2 ^ k)" by (simp add: x_def)
  then have "round_half_even (x / (1 / 2 ^ k)) = int n * 2 ^ k"
    by (simp only: round_half_even_of_int)
  then have "nearest x = of_int (int n * 2 ^ k) * (1 / 2 ^ k)"
    using x0 by (simp add: nearest_def Let_def m u)
  then show ?thesis by (simp add: x_def)
qed

lemma binade_abs: "binade \<bar>x\<bar> = binade x"
  by (simp add: binade_def)

lemma binade_less:
  assumes "x \<noteq> 0" "\<bar>x\<bar> < 2 powi k"
  shows "binade x < k"
proof (rule ccontr)
  assume "\<not> binade x < k"
  then have "(2::rat) powi k \<le> 2 powi binade x" by (intro power_int_increasing) simp_all
  moreover have "2 powi binade \<bar>x\<bar> \<le> \<bar>x\<bar>" using assms(1) by (intro binade_bounds(1)) simp
  ultimately show False using assms(2) by (simp add: binade_abs)
qed

lemma round64_Finite: "\<bar>nearest x\<bar> < 2 ^ 1024 \<Longrightarrow> round64 x = Finite (nearest x)"
  using binade_less[of "nearest x" 1024] by (auto simp add: round64_def Let_def)

lemma round64_FiniteD:
  assumes "round64 x = Finite r"
  shows "r = nearest x" "\<bar>r\<bar> < 2 ^ 1024"
proof -
  show r: "r = nearest x" using assms by (auto simp add: round64_def Let_def split: if_splits)
  have c: "r = 0 \<or> binade r < 1024"
    using assms by (auto simp add: round64_def Let_def split: if_splits)
  show "\<bar>r\<bar> < 2 ^ 1024"
  proof (cases "r = 0")
    case True
    then show ?thesis by simp
  next
    case False
    then have "binade r + 1 \<le> 1024" using c by simp
    then have "(2::rat) powi (binade r + 1) \<le> 2 powi 1024" by (intro power_int_increasing) simp_all
    moreover have "\<bar>r\<bar> < 2 powi (binade \<bar>r\<bar> + 1)" using False by (intro binade_bounds(2)) simp
    ultimately show ?thesis by (simp add: binade_abs)
  qed
qed

lemma round64_zero [simp]: "round64 0 = Finite 0"
  by (simp add: round64_def)

lemma round64_nonneg_mono:
  assumes "0 \<le> x" "x \<le> y" "round64 y = Finite r"
  shows "round64 x = Finite (nearest x)" "0 \<le> nearest x" "nearest x \<le> r"
proof -
  have r: "r = nearest y" "\<bar>r\<bar> < 2 ^ 1024" using round64_FiniteD[OF assms(3)] by auto
  show a: "0 \<le> nearest x" using assms(1) by (rule nearest_nonneg)
  show b: "nearest x \<le> r" using nearest_mono_nonneg[OF assms(1,2)] r by simp
  show "round64 x = Finite (nearest x)" using a b r by (intro round64_Finite) linarith
qed

lemma is_float64_of_nat: "n < 2 ^ 53 \<Longrightarrow> is_float64 (of_nat n)"
proof -
  assume n: "n < 2 ^ 53"
  have "(of_nat n :: rat) < of_nat (2 ^ 53)" using n by (simp only: of_nat_less_iff)
  moreover have "(of_nat (2 ^ 53) :: rat) < 2 ^ 1024" by simp
  ultimately have "\<bar>of_nat n :: rat\<bar> < 2 ^ 1024" by simp
  then show ?thesis using nearest_of_nat_exact[OF n] by (simp add: is_float64_def round64_Finite)
qed

lemma float64_of_int_exact: "0 \<le> i \<Longrightarrow> i < 2 ^ 53 \<Longrightarrow> float64_of_int i = Finite (of_int i)"
  using is_float64_of_nat[of "nat i"] by (simp add: float64_of_int_def is_float64_def)

lemma is_float64_zero [simp]: "is_float64 0"
  by (simp add: is_float64_def)

section \<open>Properties of the frame classifier\<close>

lemma ClassifyFrame_exclusive: "\<not> (fst (snd (ClassifyFrame frame)) \<and> snd (snd (ClassifyFrame frame)))"
  unfolding ClassifyFrame_def Let_def by simp

text \<open>
  C10. For every module string and symbol string, the classifier returns
  \<open>isKernel = true\<close> if and only if the returned category is \<open>kernel_core\<close> or
  \<open>kernel_driver\<close>.
\<close>

theorem ClassifyFrame_kernel_iff_category:
  "fst (snd (ClassifyFrame frame))
   = (fst (ClassifyFrame frame) = FrameTypeKernelCore
      \<or> fst (ClassifyFrame frame) = FrameTypeKernelDriver)"
  unfolding ClassifyFrame_def Let_def
  by (simp add: FrameTypeKernelCore_def FrameTypeKernelDriver_def FrameTypeLibC_def
      FrameTypeLibPthread_def FrameTypeLibMySQL_def FrameTypeApplication_def
      FrameTypeUnknown_def)

text \<open>
  C6, as stated, fails: a module that contains \<open>libpthread\<close> is claimed by an earlier
  rule when it also carries a kernel marker, is enclosed in brackets, or contains
  \<open>libc\<close> next to \<open>.so\<close>. The threading library under \<open>/usr/glibc-compat/lib\<close>
  is classified as libc.
\<close>

theorem libpthread_module_counterexample:
  "Contains (ToLower (Module compat_frame)) ''libpthread''
   \<and> ClassifyFrame compat_frame = (FrameTypeLibC, False, True)
   \<and> ClassifyFrame compat_frame \<noteq> (FrameTypeLibPthread, False, True)"
  by code_simp

text \<open>
  C6, amended. For every frame whose module string contains \<open>libpthread\<close>
  (case-insensitive) and is not claimed by one of the three earlier rules, regardless of
  the symbol name, the classifier returns category libpthread with
  \<open>isUserland = true\<close> and \<open>isKernel = false\<close>.
\<close>

theorem libpthread_module_classified:
  assumes "Contains (ToLower (Module frame)) ''libpthread''"
    and "\<not> Contains (ToLower (Module frame)) ''kernel.kallsyms''"
    and "\<not> Contains (ToLower (Module frame)) ''[kernel''"
    and "\<not> Contains (ToLower (Module frame)) ''vmlinux''"
    and "\<not> (HasPrefix (ToLower (Module frame)) ''['' \<and> HasSuffix (ToLower (Module frame)) '']'')"
    and "\<not> (Contains (ToLower (Module frame)) ''libc''
            \<and> (Contains (ToLower (Module frame)) ''.so'' \<or> Contains (ToLower (Module frame)) ''libc-''))"
  shows "ClassifyFrame frame = (FrameTypeLibPthread, False, True)"
  using assms unfolding ClassifyFrame_def Let_def by auto

theorem libpthread_module_classified_witness:
  "Contains (ToLower (Module pthread_frame)) ''libpthread''
   \<and> ClassifyFrame pthread_frame = (FrameTypeLibPthread, False, True)"
proof -
  have 1: "Contains (ToLower (Module pthread_frame)) ''libpthread''" by code_simp
  have 2: "\<not> Contains (ToLower (Module pthread_frame)) ''kernel.kallsyms''" by code_simp
  have 3: "\<not> Contains (ToLower (Module pthread_frame)) ''[kernel''" by code_simp
  have 4: "\<not> Contains (ToLower (Module pthread_frame)) ''vmlinux''" by code_simp
  have 5: "\<not> (HasPrefix (ToLower (Module pthread_frame)) ''[''
            \<and> HasSuffix (ToLower (Module pthread_frame)) '']'')" by code_simp
  have 6: "\<not> (Contains (ToLower (Module pthread_frame)) ''libc''
            \<and> (Contains (ToLower (Module pthread_frame)) ''.so''
                \<or> Contains (ToLower (Module pthread_frame)) ''libc-''))" by code_simp
  from libpthread_module_classified[OF 1 2 3 4 5 6] 1 show ?thesis by simp
qed

section \<open>Properties of the parser\<close>

subsection \<open>The example input\<close>

lemma takeWhile_all: "list_all P xs \<Longrightarrow> takeWhile P xs = xs"
  by (induction xs) auto

lemma Scan_fits:
  "list_all fits (split_lines content []) \<Longrightarrow> Scan content = (map dropCR (split_lines content []), None)"
  by (simp add: Scan_def Let_def takeWhile_all)

lemma fits_example:
  "fits example_header" "fits example_line1" "fits example_line2" "fits example_line3"
  by (simp_all add: fits_def MaxScanTokenSize_def example_header_def example_line1_def
      example_line2_def example_line3_def)

lemma split_example:
  "split_lines example_input [] = [example_header, example_line1, example_line2, example_line3]"
  by code_simp

lemma dropCR_example:
  "dropCR example_header = example_header" "dropCR example_line1 = example_line1"
  "dropCR example_line2 = example_line2" "dropCR example_line3 = example_line3"
  by code_simp+

lemma Scan_example:
  "Scan example_input = ([example_header, example_line1, example_line2, example_line3], None)"
  using fits_example by (simp add: Scan_fits split_example dropCR_example)

lemma parse_example_header:
  "parse_line ([], None) example_header = ([], Some (example_sample []))"
  by code_simp

lemma parse_example_line1:
  "parse_line ([], Some (example_sample [])) example_line1 = ([], Some (example_sample [example_frame1]))"
  by code_simp

lemma parse_example_line2:
  "parse_line ([], Some (example_sample [example_frame1])) example_line2
     = ([], Some (example_sample [example_frame1, example_frame2]))"
  by code_simp

lemma parse_example_line3:
  "parse_line ([], Some (example_sample [example_frame1, example_frame2])) example_line3
     = ([], Some (example_sample [example_frame1, example_frame2, example_frame3]))"
  by code_simp

lemma parse_example: "ParsePerfScript example_input = Inr [example_sample [example_frame1, example_frame2, example_frame3]]"
  by (simp add: ParsePerfScript_def Scan_example parse_example_header parse_example_line1
      parse_example_line2 parse_example_line3 flush_def)

subsection \<open>Lines that are skipped, and the one error\<close>

lemma unrecognized_skip: "unrecognized line \<Longrightarrow> parse_line st line = st"
  by (simp add: unrecognized_def parse_line_def split: option.splits)

lemma foldl_skip_unrecognized:
  "foldl parse_line st (filter (\<lambda>l. \<not> unrecognized l) ls) = foldl parse_line st ls"
  by (induction ls arbitrary: st) (simp_all add: unrecognized_skip)

lemma no_header_step: "no_header line \<Longrightarrow> parse_line (samples, None) line = (samples, None)"
  by (simp add: no_header_def parse_line_def)

lemma foldl_no_header:
  "list_all no_header ls \<Longrightarrow> foldl parse_line (samples, None) ls = (samples, None)"
  by (induction ls) (simp_all add: no_header_step)

lemma split_lines_no_newline:
  "CHR 0x0A \<notin> set s \<Longrightarrow> split_lines s cur = (if cur @ s = [] then [] else [cur @ s])"
  by (induction s arbitrary: cur) auto

lemma long_line_error:
  assumes "CHR 0x0A \<notin> set s" "MaxScanTokenSize \<le> length s"
  shows "ParsePerfScript s = Inl ''error scanning perf script output: bufio.Scanner: token too long''"
proof -
  have "s \<noteq> []" using assms(2) by (auto simp add: MaxScanTokenSize_def)
  then have "split_lines s [] = [s]" using split_lines_no_newline[OF assms(1), of "[]"] by simp
  moreover have "\<not> fits s" using assms(2) by (simp add: fits_def)
  ultimately show ?thesis by (simp add: ParsePerfScript_def Scan_def ErrTooLong_def)
qed

text \<open>
  C2 does not hold of the code: a line of 65536 bytes does not fit the scanner's buffer,
  and \<open>ParsePerfScript\<close> returns the scanner's error and no samples. The
  repository's test of malformed input expects an empty slice and no error, and
  \<open>processPerfOutput\<close> splits the same text with no limit on the length of a line.
\<close>

theorem ParsePerfScript_long_line_error:
  "ParsePerfScript (replicate 65536 CHR ''a'')
     = Inl ''error scanning perf script output: bufio.Scanner: token too long''"
  by (rule long_line_error) (simp_all add: MaxScanTokenSize_def)

text \<open>
  For an input whose lines are all shorter than 65536 bytes \<open>ParsePerfScript\<close>
  returns an ordered sequence of samples and no error: the one it returns for the
  recognized lines alone, so unrecognized lines anywhere in the input are skipped
  without aborting the parse. Such an input with no header line, in particular one of
  unrecognized lines only, yields the empty sequence, and so does the empty string. Any
  other input yields the scanner's error.
\<close>

lemma ParsePerfScript_short_lines:
  "(list_all fits (split_lines content []) \<longrightarrow>
      ParsePerfScript content
        = Inr (flush (foldl parse_line ([], None)
                 (filter (\<lambda>l. \<not> unrecognized l) (map dropCR (split_lines content []))))))
   \<and> (list_all fits (split_lines content [])
        \<and> list_all no_header (map dropCR (split_lines content []))
      \<longrightarrow> ParsePerfScript content = Inr [])
   \<and> ParsePerfScript [] = Inr []
   \<and> (\<not> list_all fits (split_lines content []) \<longrightarrow>
        ParsePerfScript content = Inl (''error scanning perf script output: '' @ ErrTooLong))"
proof (intro conjI impI)
  assume "list_all fits (split_lines content [])"
  then show "ParsePerfScript content
        = Inr (flush (foldl parse_line ([], None)
                 (filter (\<lambda>l. \<not> unrecognized l) (map dropCR (split_lines content [])))))"
    by (simp add: ParsePerfScript_def Scan_fits foldl_skip_unrecognized)
next
  assume "list_all fits (split_lines content [])
        \<and> list_all no_header (map dropCR (split_lines content []))"
  then show "ParsePerfScript content = Inr []"
    by (simp add: ParsePerfScript_def Scan_fits foldl_no_header flush_def)
next
  show "ParsePerfScript [] = Inr []"
    by (simp add: ParsePerfScript_def Scan_def flush_def)
next
  assume "\<not> list_all fits (split_lines content [])"
  then show "ParsePerfScript content = Inl (''error scanning perf script output: '' @ ErrTooLong)"
    by (simp add: ParsePerfScript_def Scan_def Let_def)
qed

lemma split_malformed:
  "split_lines malformed_input []
     = [''this is not valid perf script output'', ''random text here'', ''12345 more random stuff'']"
  by code_simp

lemma ParsePerfScript_malformed_input:
  "list_all fits (split_lines malformed_input [])
   \<and> list_all no_header (map dropCR (split_lines malformed_input []))
   \<and> ParsePerfScript malformed_input = Inr []"
proof -
  have f: "list_all fits (split_lines malformed_input [])"
    by (simp add: split_malformed fits_def MaxScanTokenSize_def)
  have h: "list_all no_header (map dropCR (split_lines malformed_input []))"
    unfolding split_malformed by code_simp
  from ParsePerfScript_short_lines[of malformed_input] f h
  have "ParsePerfScript malformed_input = Inr []" by blast
  then show ?thesis using f h by blast
qed

subsection \<open>Stack-frame lines\<close>

lemma frame_lines_Cons:
  "frame_lines (l # ls) =
     (if HasPrefix l [CHR 0x09]
      then (case FindStringSubmatch stackRegex 4 l of
              None \<Rightarrow> frame_lines ls | Some matches \<Rightarrow> frame_of matches # frame_lines ls)
      else frame_lines ls)"
  by (simp add: frame_lines_def List.map_filter_simps split: option.splits)

lemma foldl_frame_lines:
  "list_all no_header ls \<Longrightarrow>
   foldl parse_line (samples, Some currentSample) ls
     = (samples, Some (currentSample\<lparr>Stack := Stack currentSample @ frame_lines ls\<rparr>))"
proof (induction ls arbitrary: currentSample)
  case Nil
  then show ?case by (simp add: frame_lines_def List.map_filter_simps)
next
  case (Cons l ls)
  have h: "no_header l" and r: "list_all no_header ls" using Cons.prems by simp_all
  show ?case
  proof (cases "HasPrefix l [CHR 0x09]")
    case False
    then have "parse_line (samples, Some currentSample) l = (samples, Some currentSample)"
      using h by (simp add: no_header_def parse_line_def)
    then show ?thesis using Cons.IH[OF r, of currentSample] False by (simp add: frame_lines_Cons)
  next
    case True
    show ?thesis
    proof (cases "FindStringSubmatch stackRegex 4 l")
      case None
      then have "parse_line (samples, Some currentSample) l = (samples, Some currentSample)"
        using h True by (simp add: no_header_def parse_line_def)
      then show ?thesis using Cons.IH[OF r, of currentSample] True None by (simp add: frame_lines_Cons)
    next
      case (Some matches)
      then have "parse_line (samples, Some currentSample) l
          = (samples, Some (currentSample\<lparr>Stack := Stack currentSample @ [frame_of matches]\<rparr>))"
        using h True by (simp add: no_header_def parse_line_def)
      then show ?thesis
        using Cons.IH[OF r, of "currentSample\<lparr>Stack := Stack currentSample @ [frame_of matches]\<rparr>"]
          True Some
        by (simp add: frame_lines_Cons)
    qed
  qed
qed

text \<open>
  C5, as stated, fails: the loop looks for a frame only in a line that begins with a
  tab. A line indented with spaces that matches the stack-frame shape, and no header, is
  not appended to the open sample.
\<close>

theorem space_indented_frame_counterexample:
  "hd space_indented_line = CHR '' '' \<and> no_header space_indented_line
   \<and> FindStringSubmatch stackRegex 4 space_indented_line
        = Some [space_indented_line, ''7ffff7a0d000'', ''__pthread_mutex_lock'', ''0'',
                ''/lib/x86_64-linux-gnu/libpthread-2.31.so'']
   \<and> ParsePerfScript space_indented_input = Inr [example_sample []]"
proof -
  have s: "split_lines space_indented_input [] = [example_header, space_indented_line]" by code_simp
  have f: "fits example_header" "fits space_indented_line"
    by (simp_all add: fits_def MaxScanTokenSize_def example_header_def space_indented_line_def)
  have d: "dropCR example_header = example_header" "dropCR space_indented_line = space_indented_line"
    by code_simp+
  have p: "parse_line ([], Some (example_sample [])) space_indented_line = ([], Some (example_sample []))"
    by code_simp
  have "ParsePerfScript space_indented_input = Inr [example_sample []]"
    using f by (simp add: ParsePerfScript_def Scan_fits s d parse_example_header p flush_def)
  moreover have "no_header space_indented_line" by code_simp
  moreover have "hd space_indented_line = CHR '' ''" by code_simp
  moreover have "FindStringSubmatch stackRegex 4 space_indented_line
        = Some [space_indented_line, ''7ffff7a0d000'', ''__pthread_mutex_lock'', ''0'',
                ''/lib/x86_64-linux-gnu/libpthread-2.31.so'']" by code_simp
  ultimately show ?thesis by blast
qed

text \<open>
  C5, amended. During parsing, every line beginning with a tab that does not match a
  header and matches the stack-frame shape is appended, in encountered order, to the
  currently open sample's stack (so a block of lines without a header adds the frames of
  its tab-indented frame lines, in their order), and a line that matches no header is
  ignored when no sample is open; in particular, for the format-1 header followed by three frame lines
  indented with a tab, the parser yields exactly one sample with \<open>processId = 12345\<close>,
  \<open>threadId = 12346\<close>, \<open>cpuIndex = 1\<close> and exactly three stack frames in encounter
  order.
\<close>

theorem stack_frame_lines:
  "(no_header line \<and> HasPrefix line [CHR 0x09] \<and> FindStringSubmatch stackRegex 4 line = Some matches
      \<longrightarrow> parse_line (samples, Some currentSample) line
            = (samples, Some (currentSample\<lparr>Stack := Stack currentSample @ [frame_of matches]\<rparr>)))
   \<and> (no_header line \<longrightarrow> parse_line (samples, None) line = (samples, None))
   \<and> (list_all no_header ls \<longrightarrow>
        foldl parse_line (samples, Some currentSample) ls
          = (samples, Some (currentSample\<lparr>Stack := Stack currentSample @ frame_lines ls\<rparr>)))
   \<and> ParsePerfScript example_input
        = Inr [example_sample [example_frame1, example_frame2, example_frame3]]
   \<and> Sample.PID (example_sample [example_frame1, example_frame2, example_frame3]) = 12345
   \<and> TID (example_sample [example_frame1, example_frame2, example_frame3]) = 12346
   \<and> CPU (example_sample [example_frame1, example_frame2, example_frame3]) = 1
   \<and> length (Stack (example_sample [example_frame1, example_frame2, example_frame3])) = 3"
  by (simp add: no_header_def[of line] parse_line_def parse_example example_sample_def
      foldl_frame_lines)

theorem stack_frame_lines_witness:
  "no_header example_line1 \<and> HasPrefix example_line1 [CHR 0x09]
   \<and> FindStringSubmatch stackRegex 4 example_line1
        = Some [example_line1, ''7ffff7a0d000'', ''__pthread_mutex_lock'', ''0'',
                ''/lib/x86_64-linux-gnu/libpthread-2.31.so'']
   \<and> parse_line ([], Some (example_sample [])) example_line1
        = ([], Some (example_sample [example_frame1]))
   \<and> parse_line ([], None) example_line1 = ([], None)
   \<and> list_all no_header [example_line1, example_line2, example_line3]
   \<and> foldl parse_line ([], Some (example_sample [])) [example_line1, example_line2, example_line3]
        = ([], Some (example_sample [example_frame1, example_frame2, example_frame3]))"
proof -
  let ?m = "[example_line1, ''7ffff7a0d000'', ''__pthread_mutex_lock'', ''0'',
                ''/lib/x86_64-linux-gnu/libpthread-2.31.so'']"
  have h: "no_header example_line1" by code_simp
  have t: "HasPrefix example_line1 [CHR 0x09]" by code_simp
  have m: "FindStringSubmatch stackRegex 4 example_line1 = Some ?m" by code_simp
  have f: "(example_sample [])\<lparr>Stack := Stack (example_sample []) @ [frame_of ?m]\<rparr>
             = example_sample [example_frame1]" by code_simp
  let ?ls = "[example_line1, example_line2, example_line3]"
  have a: "list_all no_header ?ls" by code_simp
  have g: "(example_sample [])\<lparr>Stack := Stack (example_sample []) @ frame_lines ?ls\<rparr>
             = example_sample [example_frame1, example_frame2, example_frame3]" by code_simp
  from stack_frame_lines[of example_line1 ?m "[]" "example_sample []" ?ls] h t m a
  have "parse_line ([], Some (example_sample [])) example_line1
        = ([], Some ((example_sample [])\<lparr>Stack := Stack (example_sample []) @ [frame_of ?m]\<rparr>))"
    and "parse_line ([], None) example_line1 = ([], None)"
    and "foldl parse_line ([], Some (example_sample [])) ?ls
        = ([], Some ((example_sample [])\<lparr>Stack := Stack (example_sample []) @ frame_lines ?ls\<rparr>))"
    by blast+
  then show ?thesis using h t m f a g by simp
qed

subsection \<open>The flags of parsed frames\<close>

lemma frame_of_exclusive: "\<not> (IsKernel (frame_of matches) \<and> IsUserland (frame_of matches))"
proof -
  define frame where "frame = \<lparr>Address = matches ! 1, Symbol = TrimSpace (matches ! 2),
                    Module = TrimSpace (matches ! 4), Offset = matches ! 3,
                    Type = [], IsKernel = False, IsUserland = False\<rparr>"
  obtain t k u where c: "ClassifyFrame frame = (t, k, u)" by (cases "ClassifyFrame frame") auto
  have "\<not> (k \<and> u)" using ClassifyFrame_exclusive[of frame] c by simp
  moreover have "frame_of matches = frame\<lparr>StackFrame.Type := t, IsKernel := k, IsUserland := u\<rparr>"
    unfolding frame_of_def Let_def frame_def[symmetric] c by simp
  ultimately show ?thesis by simp
qed

lemma flush_exclusive: "state_exclusive st \<Longrightarrow> \<forall>s \<in> set (flush st). frames_exclusive s"
  by (auto simp add: state_exclusive_def flush_def split: option.splits)

lemma parse_line_exclusive: "state_exclusive st \<Longrightarrow> state_exclusive (parse_line st line)"
  using flush_exclusive[of st] frame_of_exclusive
  unfolding parse_line_def
  by (auto simp add: state_exclusive_def frames_exclusive_def split: option.splits)

lemma foldl_parse_line_exclusive:
  "state_exclusive st \<Longrightarrow> state_exclusive (foldl parse_line st ls)"
  by (induction ls arbitrary: st) (simp_all add: parse_line_exclusive)

text \<open>
  C7. For every module string and symbol string, the classifier never returns
  \<open>isKernel = true\<close> and \<open>isUserland = true\<close> together (both may be false, as
  they are for a module that opens a bracket and does not close it), and every frame of
  every sample that the parser returns carries at most one of the two flags.
\<close>

theorem classifier_flags_exclusive:
  "\<not> (fst (snd (ClassifyFrame frame)) \<and> snd (snd (ClassifyFrame frame)))
   \<and> ClassifyFrame bracket_frame = (FrameTypeUnknown, False, False)
   \<and> (\<forall>content samples. ParsePerfScript content = Inr samples \<longrightarrow>
        (\<forall>s \<in> set samples. \<forall>f \<in> set (Stack s). \<not> (IsKernel f \<and> IsUserland f)))"
proof (intro conjI allI impI)
  show "\<not> (fst (snd (ClassifyFrame frame)) \<and> snd (snd (ClassifyFrame frame)))"
    by (rule ClassifyFrame_exclusive)
next
  show "ClassifyFrame bracket_frame = (FrameTypeUnknown, False, False)"
    by code_simp
next
  fix content samples
  assume p: "ParsePerfScript content = Inr samples"
  have "state_exclusive ([], None)" by (simp add: state_exclusive_def)
  then have "\<forall>s \<in> set (flush (foldl parse_line ([], None) (fst (Scan content)))). frames_exclusive s"
    by (intro flush_exclusive foldl_parse_line_exclusive)
  moreover have "samples = flush (foldl parse_line ([], None) (fst (Scan content)))"
    using p unfolding ParsePerfScript_def Let_def by (auto split: prod.splits option.splits)
  ultimately show "\<forall>s \<in> set samples. \<forall>f \<in> set (Stack s). \<not> (IsKernel f \<and> IsUserland f)"
    by (simp add: frames_exclusive_def)
qed

theorem classifier_flags_exclusive_witness:
  "ParsePerfScript example_input = Inr [example_sample [example_frame1, example_frame2, example_frame3]]
   \<and> \<not> (IsKernel example_frame1 \<and> IsUserland example_frame1)
   \<and> \<not> (IsKernel example_frame3 \<and> IsUserland example_frame3)"
proof -
  from classifier_flags_exclusive[THEN conjunct2, THEN conjunct2, rule_format, OF parse_example]
  have "\<forall>f \<in> set [example_frame1, example_frame2, example_frame3]. \<not> (IsKernel f \<and> IsUserland f)"
    by (simp add: example_sample_def)
  then show ?thesis using parse_example by simp
qed

section \<open>Properties of the pattern detector\<close>

subsection \<open>Arithmetic in int\<close>

lemma int64_id: "- (2 ^ 63) \<le> x \<Longrightarrow> x < 2 ^ 63 \<Longrightarrow> int64 x = x"
  by (simp add: int64_def)

lemma int64_range: "- (2 ^ 63) \<le> int64 x \<and> int64 x < 2 ^ 63"
proof -
  have "0 \<le> (x + 2 ^ 63) mod 2 ^ 64" "(x + 2 ^ 63) mod 2 ^ 64 < 2 ^ 64" by simp_all
  moreover have "(2::int) ^ 64 = 2 ^ 63 + 2 ^ 63" by simp
  ultimately show ?thesis unfolding int64_def by linarith
qed

lemma int64_add_left: "int64 (int64 a + b) = int64 (a + b)"
proof -
  have "(int64 a + b + 2 ^ 63) mod 2 ^ 64 = ((a + 2 ^ 63) mod 2 ^ 64 + b) mod 2 ^ 64"
    by (simp add: int64_def algebra_simps)
  also have "\<dots> = (a + 2 ^ 63 + b) mod 2 ^ 64" by (rule mod_add_left_eq)
  finally show ?thesis by (simp add: int64_def algebra_simps)
qed

lemma int64_le_nonneg: "0 \<le> x \<Longrightarrow> int64 x \<le> x"
proof (cases "x < 2 ^ 63")
  case True
  assume "0 \<le> x"
  then show ?thesis using True by (simp add: int64_id)
next
  case False
  then show ?thesis using int64_range[of x] by linarith
qed

lemma int_div_less_iff:
  fixes a b k :: int
  assumes "0 < b"
  shows "(a div b < k) = (a < k * b)"
proof -
  define q where "q = a div b"
  define r where "r = a mod b"
  have a: "a = q * b + r" by (simp add: q_def r_def)
  have r: "0 \<le> r" "r < b" using assms by (simp_all add: r_def)
  show ?thesis
  proof
    assume "a div b < k"
    then have "q + 1 \<le> k" by (simp add: q_def)
    then have "(q + 1) * b \<le> k * b" using assms by (simp add: mult_right_mono)
    then have "q * b + b \<le> k * b" by (simp add: algebra_simps)
    then show "a < k * b" using a r by linarith
  next
    assume lt: "a < k * b"
    show "a div b < k"
    proof (rule ccontr)
      assume "\<not> a div b < k"
      then have "k \<le> q" by (simp add: q_def)
      then have "k * b \<le> q * b" using assms by (simp add: mult_right_mono)
      then show False using lt a r by linarith
    qed
  qed
qed

lemma quo_nonneg: "0 \<le> a \<Longrightarrow> 0 < b \<Longrightarrow> quo a b = a div b"
  by (cases "a = 0") (simp_all add: quo_def)

lemma half_threshold: "0 \<le> n \<Longrightarrow> (l > quo n 2) = (2 * l > n)"
  using int_div_less_iff[of 2 n l] by (simp add: quo_nonneg mult.commute)

lemma seventy_threshold:
  assumes "0 \<le> n" "n \<le> maxSliceLen"
  shows "(k > quo (int64 (n * 70)) 100) = (100 * k > 70 * n)"
proof -
  have "n * 70 < 2 ^ 63" using assms(2) by (simp add: maxSliceLen_def)
  then have "int64 (n * 70) = n * 70" using assms(1) by (intro int64_id) simp_all
  then show ?thesis
    using int_div_less_iff[of 100 "n * 70" k] assms(1) by (simp add: quo_nonneg mult.commute)
qed

subsection \<open>The sum of the lock-related tallies\<close>

lemma lock_fold_wrapped:
  "int64 a = a \<Longrightarrow>
   foldl (\<lambda>n (fn, count). if P fn then int64 (n + count) else n) a m
     = int64 (a + sum_list (map snd (filter (\<lambda>p. P (fst p)) m)))"
proof (induction m arbitrary: a)
  case Nil
  then show ?case by simp
next
  case (Cons p m)
  obtain fn c where p: "p = (fn, c)" by (cases p)
  show ?case
  proof (cases "P fn")
    case True
    have "int64 (int64 (a + c)) = int64 (a + c)"
      using int64_range[of "a + c"] by (intro int64_id) simp_all
    from Cons.IH[OF this] show ?thesis using True
      by (simp add: p int64_add_left add.assoc)
  next
    case False
    then show ?thesis using Cons.IH[OF Cons.prems] by (simp add: p)
  qed
qed

lemma lockCount_wrapped: "lockCount w = int64 (lock_tally w)"
  unfolding lockCount_def lock_tally_def
  using lock_fold_wrapped[of 0 "\<lambda>fn. containsAny fn lock_markers" "FunctionCounts w"]
  by (simp add: int64_def)

lemma lockCount_tally: "lock_tally_bounded w \<Longrightarrow> lockCount w = lock_tally w"
  unfolding lockCount_wrapped
  by (intro int64_id) (simp_all add: lock_tally_bounded_def maxSliceLen_def)

lemma lock_test_tally:
  "lock_tally_bounded w \<Longrightarrow> lock_test w = (2 * lock_tally w > SampleCount w)"
  using half_threshold[of "SampleCount w" "lock_tally w"]
  by (simp add: lock_test_def lockCount_tally lock_tally_bounded_def)

lemma syscall_test_tally:
  "0 \<le> SampleCount w \<Longrightarrow> SampleCount w \<le> maxSliceLen \<Longrightarrow>
   syscall_test w = (100 * tally (CategoryCounts w) ''kernel_core'' > 70 * SampleCount w)"
  using seventy_threshold[of "SampleCount w"]
  by (auto simp add: syscall_test_def tally_def split: option.splits)

lemma tallies_bounded_safe: "tallies_bounded w \<Longrightarrow> lock_test w \<Longrightarrow> SampleCount w \<noteq> 0"
  by (auto simp add: tallies_bounded_def lock_test_def quo_def)

lemma lock_tally_bounded_safe: "lock_tally_bounded w \<Longrightarrow> lock_test w \<Longrightarrow> SampleCount w \<noteq> 0"
  using lock_test_tally[of w] by (auto simp add: lock_tally_bounded_def)

subsection \<open>What the loop appends\<close>

lemma check_lock_eq:
  assumes "lock_test w \<longrightarrow> SampleCount w \<noteq> 0"
  shows "check_lock i w p = Inr \<lparr>
      LockContentionWindows = LockContentionWindows p @ (if lock_test w then [int i] else []),
      HighSyscallWindows = HighSyscallWindows p, CPUSpikes = CPUSpikes p,
      Anomalies = Anomalies p @ lock_anomalies i w\<rparr>"
  using assms by (cases p) (simp add: check_lock_def lock_anomalies_def lock_test_def)

lemma check_syscall_eq:
  "check_syscall i w p = \<lparr>
      LockContentionWindows = LockContentionWindows p,
      HighSyscallWindows = HighSyscallWindows p @ (if syscall_test w then [int i] else []),
      CPUSpikes = CPUSpikes p,
      Anomalies = Anomalies p @ syscall_anomalies i w\<rparr>"
  by (cases p) (auto simp add: check_syscall_def syscall_anomalies_def syscall_test_def
      split: option.splits)

lemma check_spike_eq:
  "check_spike avg i w p = \<lparr>
      LockContentionWindows = LockContentionWindows p,
      HighSyscallWindows = HighSyscallWindows p,
      CPUSpikes = CPUSpikes p @ (if spike_test avg w then [int i] else []),
      Anomalies = Anomalies p @ spike_anomalies avg i w\<rparr>"
  by (cases p) (simp add: check_spike_def spike_anomalies_def spike_test_def)

lemma analyze_windows_eq:
  assumes "\<forall>iw \<in> set iws. lock_test (snd iw) \<longrightarrow> SampleCount (snd iw) \<noteq> 0"
  shows "analyze_windows avg p iws = Inr \<lparr>
      LockContentionWindows = LockContentionWindows p @
        map (\<lambda>iw. int (fst iw)) (filter (\<lambda>iw. lock_test (snd iw)) iws),
      HighSyscallWindows = HighSyscallWindows p @
        map (\<lambda>iw. int (fst iw)) (filter (\<lambda>iw. syscall_test (snd iw)) iws),
      CPUSpikes = CPUSpikes p @
        map (\<lambda>iw. int (fst iw)) (filter (\<lambda>iw. spike_test avg (snd iw)) iws),
      Anomalies = Anomalies p @ concat (map (window_anomalies avg) iws)\<rparr>"
  using assms
proof (induction iws arbitrary: p)
  case Nil
  then show ?case by simp
next
  case (Cons iw iws)
  obtain i w where iw: "iw = (i, w)" by (cases iw)
  have b: "lock_test w \<longrightarrow> SampleCount w \<noteq> 0" using Cons.prems iw by auto
  have rest: "\<forall>iw \<in> set iws. lock_test (snd iw) \<longrightarrow> SampleCount (snd iw) \<noteq> 0"
    using Cons.prems by simp
  have step: "analyze_windows avg p (iw # iws) =
      analyze_windows avg (check_spike avg i w (check_syscall i w \<lparr>
      LockContentionWindows = LockContentionWindows p @ (if lock_test w then [int i] else []),
      HighSyscallWindows = HighSyscallWindows p, CPUSpikes = CPUSpikes p,
      Anomalies = Anomalies p @ lock_anomalies i w\<rparr>)) iws"
    unfolding iw by (simp add: check_lock_eq[OF b])
  have wa: "window_anomalies avg (i, w)
      = lock_anomalies i w @ syscall_anomalies i w @ spike_anomalies avg i w"
    by (simp add: window_anomalies_def)
  show ?case
    unfolding step Cons.IH[OF rest] check_spike_eq check_syscall_eq
    by (simp add: wa iw)
qed

lemma detectPatterns_eq:
  assumes "\<forall>w \<in> set windows. lock_test w \<longrightarrow> SampleCount w \<noteq> 0"
  shows "detectPatterns windows = Inr \<lparr>
      LockContentionWindows = flagged lock_test windows,
      HighSyscallWindows = flagged syscall_test windows,
      CPUSpikes = flagged (spike_test (avgSamples windows)) windows,
      Anomalies = all_anomalies windows\<rparr>"
proof -
  have "\<forall>iw \<in> set (enumerate 0 windows). lock_test (snd iw) \<longrightarrow> SampleCount (snd iw) \<noteq> 0"
    using assms by (auto simp add: in_set_enumerate_eq)
  from analyze_windows_eq[OF this] show ?thesis
    by (simp add: detectPatterns_def Let_def avgSamples_def flagged_def all_anomalies_def)
qed

lemma flag_index_mem: "(int i \<in> set (flagged P ws)) = (i < length ws \<and> P (ws ! i))"
  by (auto simp add: flagged_def in_set_enumerate_eq image_iff)

lemma anomaly_mem:
  "(a \<in> set (all_anomalies ws))
   = (\<exists>i < length ws. a \<in> set (window_anomalies (avgSamples ws) (i, ws ! i)))"
  by (auto simp add: all_anomalies_def in_set_enumerate_eq)

lemma window_anomalies_index:
  "a \<in> set (window_anomalies avg (j, w)) \<Longrightarrow> Anomaly.WindowIndex a = int j"
  by (auto simp add: window_anomalies_def lock_anomalies_def syscall_anomalies_def
      spike_anomalies_def split: if_splits)

lemma window_anomalies_lock:
  "(a \<in> set (window_anomalies avg (j, w)) \<and> Anomaly.Type a = ''lock_contention'')
   = (a \<in> set (lock_anomalies j w))"
  by (auto simp add: window_anomalies_def lock_anomalies_def syscall_anomalies_def
      spike_anomalies_def split: if_splits)

lemma window_anomalies_syscall:
  "(a \<in> set (window_anomalies avg (j, w)) \<and> Anomaly.Type a = ''high_syscall'')
   = (a \<in> set (syscall_anomalies j w))"
  by (auto simp add: window_anomalies_def lock_anomalies_def syscall_anomalies_def
      spike_anomalies_def split: if_splits)

lemma window_anomalies_spike:
  "(a \<in> set (window_anomalies avg (j, w)) \<and> Anomaly.Type a = ''cpu_spike'')
   = (a \<in> set (spike_anomalies avg j w))"
  by (auto simp add: window_anomalies_def lock_anomalies_def syscall_anomalies_def
      spike_anomalies_def split: if_splits)

lemma lock_anomaly_iff:
  assumes "i < length windows"
  shows "(\<exists>a \<in> set (all_anomalies windows).
            Anomaly.WindowIndex a = int i \<and> Anomaly.Type a = ''lock_contention'')
         = lock_test (windows ! i)"
proof
  let ?avg = "avgSamples windows"
  assume "\<exists>a \<in> set (all_anomalies windows).
            Anomaly.WindowIndex a = int i \<and> Anomaly.Type a = ''lock_contention''"
  then obtain a where m: "a \<in> set (all_anomalies windows)"
    and a: "Anomaly.WindowIndex a = int i" "Anomaly.Type a = ''lock_contention''" by blast
  from m obtain j where j: "j < length windows" "a \<in> set (window_anomalies ?avg (j, windows ! j))"
    using anomaly_mem[of a windows] by blast
  have "j = i" using window_anomalies_index[OF j(2)] a(1) by simp
  moreover have "a \<in> set (lock_anomalies j (windows ! j))"
    using window_anomalies_lock[of a ?avg j "windows ! j"] j(2) a(2) by simp
  ultimately show "lock_test (windows ! i)"
    by (auto simp add: lock_anomalies_def split: if_splits)
next
  let ?avg = "avgSamples windows"
  assume "lock_test (windows ! i)"
  then obtain a where a: "a \<in> set (lock_anomalies i (windows ! i))"
    by (auto simp add: lock_anomalies_def)
  then have "a \<in> set (window_anomalies ?avg (i, windows ! i))" "Anomaly.Type a = ''lock_contention''"
    using window_anomalies_lock[of a ?avg i "windows ! i"] by auto
  moreover from this have "Anomaly.WindowIndex a = int i" using window_anomalies_index by blast
  ultimately show "\<exists>a \<in> set (all_anomalies windows).
            Anomaly.WindowIndex a = int i \<and> Anomaly.Type a = ''lock_contention''"
    using assms anomaly_mem[of a windows] by blast
qed

lemma syscall_anomaly_iff:
  assumes "i < length windows"
  shows "(\<exists>a \<in> set (all_anomalies windows).
            Anomaly.WindowIndex a = int i \<and> Anomaly.Type a = ''high_syscall'')
         = syscall_test (windows ! i)"
proof
  let ?avg = "avgSamples windows"
  assume "\<exists>a \<in> set (all_anomalies windows).
            Anomaly.WindowIndex a = int i \<and> Anomaly.Type a = ''high_syscall''"
  then obtain a where m: "a \<in> set (all_anomalies windows)"
    and a: "Anomaly.WindowIndex a = int i" "Anomaly.Type a = ''high_syscall''" by blast
  from m obtain j where j: "j < length windows" "a \<in> set (window_anomalies ?avg (j, windows ! j))"
    using anomaly_mem[of a windows] by blast
  have "j = i" using window_anomalies_index[OF j(2)] a(1) by simp
  moreover have "a \<in> set (syscall_anomalies j (windows ! j))"
    using window_anomalies_syscall[of a ?avg j "windows ! j"] j(2) a(2) by simp
  ultimately show "syscall_test (windows ! i)"
    by (auto simp add: syscall_anomalies_def split: if_splits)
next
  let ?avg = "avgSamples windows"
  assume "syscall_test (windows ! i)"
  then obtain a where a: "a \<in> set (syscall_anomalies i (windows ! i))"
    by (auto simp add: syscall_anomalies_def)
  then have "a \<in> set (window_anomalies ?avg (i, windows ! i))" "Anomaly.Type a = ''high_syscall''"
    using window_anomalies_syscall[of a ?avg i "windows ! i"] by auto
  moreover from this have "Anomaly.WindowIndex a = int i" using window_anomalies_index by blast
  ultimately show "\<exists>a \<in> set (all_anomalies windows).
            Anomaly.WindowIndex a = int i \<and> Anomaly.Type a = ''high_syscall''"
    using assms anomaly_mem[of a windows] by blast
qed

lemma lock_anomaly_fields:
  assumes "a \<in> set (all_anomalies windows)" "Anomaly.Type a = ''lock_contention''"
  shows "\<exists>i < length windows. Anomaly.WindowIndex a = int i \<and> lock_test (windows ! i)
     \<and> Severity a = ''high''
     \<and> Value a = percent (lockCount (windows ! i)) (SampleCount (windows ! i))"
proof -
  from assms obtain j where j: "j < length windows"
      "a \<in> set (window_anomalies (avgSamples windows) (j, windows ! j))"
    using anomaly_mem[of a windows] by blast
  have "a \<in> set (lock_anomalies j (windows ! j))"
    using window_anomalies_lock[of a "avgSamples windows" j "windows ! j"] j(2) assms(2) by simp
  then show ?thesis using j(1) by (auto simp add: lock_anomalies_def split: if_splits)
qed

lemma syscall_anomaly_fields:
  assumes "a \<in> set (all_anomalies windows)" "Anomaly.Type a = ''high_syscall''"
  shows "\<exists>i < length windows. Anomaly.WindowIndex a = int i \<and> syscall_test (windows ! i)
     \<and> Severity a = ''medium'' \<and> Value a = KernelPercent (windows ! i)"
proof -
  from assms obtain j where j: "j < length windows"
      "a \<in> set (window_anomalies (avgSamples windows) (j, windows ! j))"
    using anomaly_mem[of a windows] by blast
  have "a \<in> set (syscall_anomalies j (windows ! j))"
    using window_anomalies_syscall[of a "avgSamples windows" j "windows ! j"] j(2) assms(2) by simp
  then show ?thesis using j(1) by (auto simp add: syscall_anomalies_def split: if_splits)
qed

subsection \<open>The tallies of a window's aggregate count the leaf frames of its samples\<close>

lemma tally_Cons: "tally (p # ps) k = (if fst p = k then snd p else tally ps k)"
  by (cases p) (auto simp add: tally_def)

lemma filtered_sum_update:
  "sum_list (map snd (filter (\<lambda>p. P (fst p)) (AList.update k (tally m k + c) m)))
     = sum_list (map snd (filter (\<lambda>p. P (fst p)) m)) + (if P k then c else 0)"
  by (induction m) (auto simp add: tally_Cons tally_def)

lemma filtered_sum_incr:
  "sum_list (map snd (filter (\<lambda>p. P (fst p)) (incr k m)))
     = sum_list (map snd (filter (\<lambda>p. P (fst p)) m)) + (if P k then 1 else 0)"
  by (simp add: incr_def filtered_sum_update)

lemma tally_incr: "tally (incr k m) k' = tally m k' + (if k' = k then 1 else 0)"
  by (simp add: incr_def tally_def update_conv')

lemma leaf_count_Cons:
  "leaf_count P (s # ss)
     = (case GetTopFrame s of None \<Rightarrow> 0 | Some frame \<Rightarrow> if P frame then 1 else 0) + leaf_count P ss"
  by (simp add: leaf_count_def split: option.splits)

lemma leaf_count_bounds: "0 \<le> leaf_count P ss" "leaf_count P ss \<le> int (length ss)"
  by (simp_all add: leaf_count_def)

lemma count_sample_tallies:
  "lock_tally (fst (count_sample acc s))
     = lock_tally (fst acc)
       + (case GetTopFrame s of None \<Rightarrow> 0 | Some frame \<Rightarrow> if lock_related frame then 1 else 0)
   \<and> tally (CategoryCounts (fst (count_sample acc s))) ''kernel_core''
     = tally (CategoryCounts (fst acc)) ''kernel_core''
       + (case GetTopFrame s of None \<Rightarrow> 0 | Some frame \<Rightarrow> if in_kernel_core frame then 1 else 0)
   \<and> SampleCount (fst (count_sample acc s)) = SampleCount (fst acc)"
  by (cases acc)
    (auto simp add: count_sample_def Let_def tally_incr lock_related_def in_kernel_core_def
      lock_tally_def filtered_sum_incr[where P = "\<lambda>k. containsAny k lock_markers"]
      split: option.splits)

lemma foldl_count_sample_tallies:
  "lock_tally (fst (foldl count_sample acc ss)) = lock_tally (fst acc) + leaf_count lock_related ss
   \<and> tally (CategoryCounts (fst (foldl count_sample acc ss))) ''kernel_core''
     = tally (CategoryCounts (fst acc)) ''kernel_core'' + leaf_count in_kernel_core ss
   \<and> SampleCount (fst (foldl count_sample acc ss)) = SampleCount (fst acc)"
proof (induction ss arbitrary: acc)
  case Nil
  then show ?case by (simp add: leaf_count_def)
next
  case (Cons s ss)
  show ?case using Cons.IH[of "count_sample acc s"] count_sample_tallies[of acc s]
    by (simp add: leaf_count_Cons)
qed

lemma aggregate_window_counts:
  "SampleCount (aggregate_window i window) = int (length (Samples window))"
  "lock_tally (aggregate_window i window) = leaf_count lock_related (Samples window)"
  "tally (CategoryCounts (aggregate_window i window)) ''kernel_core''
     = leaf_count in_kernel_core (Samples window)"
proof -
  define twd0 where "twd0 = \<lparr>TimeWindowData.WindowIndex = int i,
                   TimeWindowData.StartTime = TimeWindow.StartTime window,
                   TimeWindowData.EndTime = TimeWindow.EndTime window,
                   SampleCount = int (length (Samples window)),
                   FunctionCounts = [], ThreadCounts = [], CategoryCounts = [],
                   TopFunction = [], TopFunctionPercent = Finite 0,
                   KernelPercent = Finite 0, UserlandPercent = Finite 0\<rparr>"
  define r where "r = foldl count_sample (twd0, 0, 0) (Samples window)"
  have t: "lock_tally (fst r) = leaf_count lock_related (Samples window)"
    "tally (CategoryCounts (fst r)) ''kernel_core'' = leaf_count in_kernel_core (Samples window)"
    "SampleCount (fst r) = int (length (Samples window))"
    using foldl_count_sample_tallies[of "(twd0, 0, 0)" "Samples window"]
    by (simp_all add: r_def twd0_def tally_def lock_tally_def)
  have a: "aggregate_window i window = fst r
      \<or> (\<exists>kp up tf tp. aggregate_window i window
            = fst r\<lparr>KernelPercent := kp, UserlandPercent := up, TopFunction := tf,
                     TopFunctionPercent := tp\<rparr>)"
    unfolding aggregate_window_def Let_def twd0_def[symmetric] r_def[symmetric]
    by (auto split: prod.splits)
  show "SampleCount (aggregate_window i window) = int (length (Samples window))"
    using a t(3) by auto
  show "lock_tally (aggregate_window i window) = leaf_count lock_related (Samples window)"
    using a t(1) by (auto simp add: lock_tally_def)
  show "tally (CategoryCounts (aggregate_window i window)) ''kernel_core''
     = leaf_count in_kernel_core (Samples window)"
    using a t(2) by auto
qed

lemma aggregate_window_bounded: "tallies_bounded (aggregate_window i window)"
proof -
  have "lockCount (aggregate_window i window) \<le> leaf_count lock_related (Samples window)"
    unfolding lockCount_wrapped aggregate_window_counts
    by (intro int64_le_nonneg leaf_count_bounds)
  then show ?thesis
    using leaf_count_bounds(2)[of lock_related "Samples window"]
      leaf_count_bounds(2)[of in_kernel_core "Samples window"]
    by (simp add: tallies_bounded_def aggregate_window_counts)
qed

lemma aggregate_windows_bounded: "\<forall>w \<in> set (aggregate_windows ws). tallies_bounded w"
  by (auto simp add: aggregate_windows_def aggregate_window_bounded)

lemma aggregate_window_lock_tally_bounded:
  "int (length (Samples window)) \<le> maxSliceLen \<Longrightarrow> lock_tally_bounded (aggregate_window i window)"
  using leaf_count_bounds[of lock_related "Samples window"]
  by (simp add: lock_tally_bounded_def aggregate_window_counts)

lemma aggregate_windows_nth:
  "i < length timeWindows \<Longrightarrow> aggregate_windows timeWindows ! i = aggregate_window i (timeWindows ! i)"
  by (simp add: aggregate_windows_def nth_enumerate_eq)

lemma aggregate_windows_length: "length (aggregate_windows timeWindows) = length timeWindows"
  by (simp add: aggregate_windows_def)

lemma aggregate_windows_lock_tally_bounded:
  assumes "\<forall>w \<in> set timeWindows. int (length (Samples w)) \<le> maxSliceLen"
  shows "\<forall>w \<in> set (aggregate_windows timeWindows). lock_tally_bounded w"
  using assms by (auto simp add: aggregate_windows_def in_set_enumerate_eq
      aggregate_window_lock_tally_bounded)

lemma leaf_count_leaf_window:
  "leaf_count P (Samples (leaf_window n frame m other))
     = (if P frame then int n else 0) + (if P other then int m else 0)"
  by (simp add: leaf_count_def leaf_window_def GetTopFrame_def example_sample_def)

lemma length_leaf_window: "length (Samples (leaf_window n frame m other)) = n + m"
  by (simp add: leaf_window_def)

lemma example_frames_lock:
  "lock_related example_frame1" "\<not> lock_related example_frame2" "\<not> lock_related example_frame3"
  by code_simp+

lemma example_frames_kernel_core:
  "\<not> in_kernel_core example_frame1" "\<not> in_kernel_core example_frame2" "in_kernel_core example_frame3"
  by code_simp+

subsection \<open>The percentage of a tally\<close>

lemma nearest_error_nonneg:
  assumes "0 \<le> x" "x \<le> 2 powi k" "- 1022 \<le> k"
  shows "\<bar>nearest x - x\<bar> \<le> 2 powi (k - 53)"
proof (cases "x = 0")
  case True
  then show ?thesis by simp
next
  case False
  then show ?thesis using nearest_error_le[of x k] assms by simp
qed

lemma nearest_numeral_exact: "nearest 1 = 1" "nearest 100 = 100"
  using nearest_of_nat_exact[of 1] nearest_of_nat_exact[of 100] by simp_all

lemma percent_error:
  assumes l: "0 < l" "l \<le> n" and n: "n \<le> maxSliceLen"
  shows "\<exists>v. percent l n = Finite v \<and> \<bar>v - 100 * of_int l / of_int n\<bar> \<le> 1 / 2 ^ 45"
proof -
  define q :: rat where "q = of_int l / of_int n"
  define r where "r = nearest q"
  define v where "v = nearest (r * 100)"
  have n0: "0 < n" using l by simp
  have b: "l < 2 ^ 53" "n < 2 ^ 53" using l n by (simp_all add: maxSliceLen_def)
  have fl: "float64_of_int l = Finite (of_int l)" "float64_of_int n = Finite (of_int n)"
    using l n0 b by (simp_all add: float64_of_int_exact)
  have q: "0 \<le> q" "q \<le> 1" using l n0 by (simp_all add: q_def)
  have big: "(100::rat) < 2 ^ 1024" by simp
  have r: "0 \<le> r" "r \<le> 1"
    using nearest_nonneg[OF q(1)] nearest_mono_nonneg[OF q] by (simp_all add: r_def nearest_numeral_exact)
  have "\<bar>nearest q\<bar> < 2 ^ 1024" using r big unfolding r_def by linarith
  then have rq: "round64 q = Finite r" unfolding r_def by (rule round64_Finite)
  have r100: "0 \<le> r * 100" "r * 100 \<le> 100" using r by simp_all
  have v: "0 \<le> v" "v \<le> 100"
    using nearest_nonneg[OF r100(1)] nearest_mono_nonneg[OF r100] by (simp_all add: v_def nearest_numeral_exact)
  have "\<bar>nearest (r * 100)\<bar> < 2 ^ 1024" using v big unfolding v_def by linarith
  then have rv: "round64 (r * 100) = Finite v" unfolding v_def by (rule round64_Finite)
  have "fdiv (Finite (of_int l)) (Finite (of_int n)) = Finite r"
    using n0 rq by (simp add: q_def)
  then have p: "percent l n = Finite v"
    using rv by (simp add: percent_def fl)
  have e1: "\<bar>r - q\<bar> \<le> 2 powi (0 - 53)"
    unfolding r_def using q by (intro nearest_error_nonneg) simp_all
  have "r * 100 \<le> 2 powi 7" using r100(2) by simp
  then have e2: "\<bar>v - r * 100\<bar> \<le> 2 powi (7 - 53)"
    unfolding v_def using r100(1) by (intro nearest_error_nonneg) simp_all
  have "v - 100 * q = (v - r * 100) + 100 * (r - q)" by simp
  then have "\<bar>v - 100 * q\<bar> \<le> \<bar>v - r * 100\<bar> + \<bar>100 * (r - q)\<bar>"
    using abs_triangle_ineq[of "v - r * 100" "100 * (r - q)"] by simp
  also have "\<bar>100 * (r - q)\<bar> = 100 * \<bar>r - q\<bar>" by (simp only: abs_mult abs_numeral)
  finally have "\<bar>v - 100 * q\<bar> \<le> \<bar>v - r * 100\<bar> + 100 * \<bar>r - q\<bar>" .
  also have "\<dots> \<le> 2 powi (7 - 53) + 100 * 2 powi (0 - 53)"
    by (intro add_mono mult_left_mono e1 e2) simp
  also have "\<dots> \<le> 1 / 2 ^ 45" by (simp add: power_int_minus)
  finally have "\<bar>v - 100 * of_int l / of_int n\<bar> \<le> 1 / 2 ^ 45" by (simp add: q_def)
  then show ?thesis using p by blast
qed

subsection \<open>Lock contention\<close>

lemma lock_contention_flags:
  assumes "\<forall>w \<in> set windows. lock_tally_bounded w"
  shows "\<exists>p. detectPatterns windows = Inr p
     \<and> (\<forall>i < length windows.
          (int i \<in> set (LockContentionWindows p))
            = (2 * lock_tally (windows ! i) > SampleCount (windows ! i))
        \<and> (\<exists>a \<in> set (Anomalies p). Anomaly.WindowIndex a = int i \<and> Anomaly.Type a = ''lock_contention'')
            = (2 * lock_tally (windows ! i) > SampleCount (windows ! i)))
     \<and> (\<forall>a \<in> set (Anomalies p). Anomaly.Type a = ''lock_contention'' \<longrightarrow>
          Severity a = ''high''
          \<and> (\<exists>i < length windows. Anomaly.WindowIndex a = int i
                \<and> (\<exists>v. Value a = Finite v
                      \<and> \<bar>v - 100 * of_int (lock_tally (windows ! i))
                                / of_int (SampleCount (windows ! i))\<bar> \<le> 1 / 2 ^ 45)))"
proof -
  have safe: "\<forall>w \<in> set windows. lock_test w \<longrightarrow> SampleCount w \<noteq> 0"
    using assms lock_tally_bounded_safe by blast
  have t: "lock_test (windows ! i) = (2 * lock_tally (windows ! i) > SampleCount (windows ! i))"
    if "i < length windows" for i
    using assms that by (intro lock_test_tally) simp
  have val: "Severity a = ''high''
          \<and> (\<exists>i < length windows. Anomaly.WindowIndex a = int i
                \<and> (\<exists>v. Value a = Finite v
                      \<and> \<bar>v - 100 * of_int (lock_tally (windows ! i))
                                / of_int (SampleCount (windows ! i))\<bar> \<le> 1 / 2 ^ 45))"
    if a: "a \<in> set (all_anomalies windows)" "Anomaly.Type a = ''lock_contention''" for a
  proof -
    from lock_anomaly_fields[OF a] obtain i where i: "i < length windows"
      "Anomaly.WindowIndex a = int i" "lock_test (windows ! i)" "Severity a = ''high''"
      "Value a = percent (lockCount (windows ! i)) (SampleCount (windows ! i))" by blast
    have b: "lock_tally_bounded (windows ! i)" using assms i(1) by simp
    have l: "lockCount (windows ! i) = lock_tally (windows ! i)" using b by (rule lockCount_tally)
    have "2 * lock_tally (windows ! i) > SampleCount (windows ! i)" using t[OF i(1)] i(3) by simp
    then have "0 < lock_tally (windows ! i)" "lock_tally (windows ! i) \<le> SampleCount (windows ! i)"
      "SampleCount (windows ! i) \<le> maxSliceLen"
      using b by (simp_all add: lock_tally_bounded_def)
    from percent_error[OF this] show ?thesis using i l by auto
  qed
  show ?thesis
    unfolding detectPatterns_eq[OF safe]
    using t val lock_anomaly_iff[of _ windows] by (simp add: flag_index_mem)
qed

text \<open>
  C3. For every window aggregate, the pattern detector flags \<open>lock_contention\<close>
  (severity high, value = the lock-related percentage) exactly when the summed tally of
  lock-related function names strictly exceeds 50% of the window's sample count. The
  value is the float64 that the code computes for \<open>100 * tally / count\<close>, within
  \<open>2^-45\<close> of that number. This holds of the aggregates whose lock-related tallies sum
  to a number from 0 to the sample count, and whose sample count is one a slice can
  have; for the aggregates computed from time windows it reads: a window is flagged
  exactly when the samples whose leaf frame is a lock-related symbol are more than half
  of its samples.
\<close>

theorem lock_contention_threshold:
  "((\<forall>w \<in> set windows. lock_tally_bounded w) \<longrightarrow>
     (\<exists>p. detectPatterns windows = Inr p
       \<and> (\<forall>i < length windows.
            (int i \<in> set (LockContentionWindows p))
              = (2 * lock_tally (windows ! i) > SampleCount (windows ! i))
          \<and> (\<exists>a \<in> set (Anomalies p). Anomaly.WindowIndex a = int i \<and> Anomaly.Type a = ''lock_contention'')
              = (2 * lock_tally (windows ! i) > SampleCount (windows ! i)))
       \<and> (\<forall>a \<in> set (Anomalies p). Anomaly.Type a = ''lock_contention'' \<longrightarrow>
            Severity a = ''high''
            \<and> (\<exists>i < length windows. Anomaly.WindowIndex a = int i
                  \<and> (\<exists>v. Value a = Finite v
                        \<and> \<bar>v - 100 * of_int (lock_tally (windows ! i))
                                  / of_int (SampleCount (windows ! i))\<bar> \<le> 1 / 2 ^ 45)))))
   \<and> ((\<forall>w \<in> set timeWindows. int (length (Samples w)) \<le> maxSliceLen) \<longrightarrow>
       (\<exists>p. detectPatterns (aggregate_windows timeWindows) = Inr p
         \<and> (\<forall>i < length timeWindows.
              (int i \<in> set (LockContentionWindows p))
                = (2 * leaf_count lock_related (Samples (timeWindows ! i))
                     > int (length (Samples (timeWindows ! i)))))))"
proof (intro conjI impI)
  assume "\<forall>w \<in> set windows. lock_tally_bounded w"
  then show "\<exists>p. detectPatterns windows = Inr p
       \<and> (\<forall>i < length windows.
            (int i \<in> set (LockContentionWindows p))
              = (2 * lock_tally (windows ! i) > SampleCount (windows ! i))
          \<and> (\<exists>a \<in> set (Anomalies p). Anomaly.WindowIndex a = int i \<and> Anomaly.Type a = ''lock_contention'')
              = (2 * lock_tally (windows ! i) > SampleCount (windows ! i)))
       \<and> (\<forall>a \<in> set (Anomalies p). Anomaly.Type a = ''lock_contention'' \<longrightarrow>
            Severity a = ''high''
            \<and> (\<exists>i < length windows. Anomaly.WindowIndex a = int i
                  \<and> (\<exists>v. Value a = Finite v
                        \<and> \<bar>v - 100 * of_int (lock_tally (windows ! i))
                                  / of_int (SampleCount (windows ! i))\<bar> \<le> 1 / 2 ^ 45)))"
    by (rule lock_contention_flags)
next
  let ?ws = "aggregate_windows timeWindows"
  assume "\<forall>w \<in> set timeWindows. int (length (Samples w)) \<le> maxSliceLen"
  then have "\<forall>w \<in> set ?ws. lock_tally_bounded w" by (rule aggregate_windows_lock_tally_bounded)
  from lock_contention_flags[OF this]
  obtain p where p: "detectPatterns ?ws = Inr p"
    and f: "\<forall>i < length ?ws. (int i \<in> set (LockContentionWindows p))
              = (2 * lock_tally (?ws ! i) > SampleCount (?ws ! i))"
    by blast
  have "(int i \<in> set (LockContentionWindows p))
      = (2 * leaf_count lock_related (Samples (timeWindows ! i)) > int (length (Samples (timeWindows ! i))))"
    if i: "i < length timeWindows" for i
    using f[rule_format, of i] i
    by (simp add: aggregate_windows_length aggregate_windows_nth aggregate_window_counts)
  then show "\<exists>p. detectPatterns ?ws = Inr p
       \<and> (\<forall>i < length timeWindows.
            (int i \<in> set (LockContentionWindows p))
              = (2 * leaf_count lock_related (Samples (timeWindows ! i))
                   > int (length (Samples (timeWindows ! i)))))"
    using p by blast
qed

theorem lock_contention_threshold_witness:
  "(lock_tally_bounded lock51 \<and> lock_tally_bounded lock50)
   \<and> lock_tally lock51 = 51 \<and> SampleCount lock51 = 100
   \<and> lock_tally lock50 = 50 \<and> SampleCount lock50 = 100
   \<and> (\<exists>p. detectPatterns [lock51, lock50] = Inr p
          \<and> 0 \<in> set (LockContentionWindows p) \<and> 1 \<notin> set (LockContentionWindows p)
          \<and> Anomalies p =
              [\<lparr>Anomaly.WindowIndex = 0, Anomaly.Type = ''lock_contention'',
                Description = ''High lock contention detected: 51% of samples'',
                Severity = ''high'', Value = Finite 51\<rparr>])
   \<and> (int (length (Samples (leaf_window 51 example_frame1 49 example_frame2))) \<le> maxSliceLen
        \<and> int (length (Samples (leaf_window 50 example_frame1 50 example_frame2))) \<le> maxSliceLen)
   \<and> (\<exists>p. detectPatterns (aggregate_windows
              [leaf_window 51 example_frame1 49 example_frame2,
               leaf_window 50 example_frame1 50 example_frame2]) = Inr p
          \<and> 0 \<in> set (LockContentionWindows p) \<and> 1 \<notin> set (LockContentionWindows p))"
proof -
  have b: "lock_tally_bounded lock51" "lock_tally_bounded lock50" by code_simp+
  have l: "lock_tally lock51 = 51" "lock_tally lock50 = 50" by code_simp+
  have n: "SampleCount lock51 = 100" "SampleCount lock50 = 100" by (simp_all add: lock51_def lock50_def)
  have h: "\<forall>w \<in> set [lock51, lock50]. lock_tally_bounded w" using b by simp
  let ?tws = "[leaf_window 51 example_frame1 49 example_frame2,
               leaf_window 50 example_frame1 50 example_frame2]"
  have len: "int (length (Samples (leaf_window 51 example_frame1 49 example_frame2))) \<le> maxSliceLen"
    "int (length (Samples (leaf_window 50 example_frame1 50 example_frame2))) \<le> maxSliceLen"
    by (simp_all add: length_leaf_window maxSliceLen_def)
  then have h2: "\<forall>w \<in> set ?tws. int (length (Samples w)) \<le> maxSliceLen" by simp
  note t = lock_contention_threshold[of "[lock51, lock50]" ?tws]
  from t[THEN conjunct1, THEN mp, OF h] obtain p where p: "detectPatterns [lock51, lock50] = Inr p"
    and i: "\<forall>i < length [lock51, lock50].
          (int i \<in> set (LockContentionWindows p))
            = (2 * lock_tally ([lock51, lock50] ! i) > SampleCount ([lock51, lock50] ! i))"
    by blast
  from i[rule_format, of 0] i[rule_format, of 1] l n
  have one: "0 \<in> set (LockContentionWindows p)" "1 \<notin> set (LockContentionWindows p)" by simp_all
  have "detectPatterns [lock51, lock50] = Inr \<lparr>LockContentionWindows = [0],
      HighSyscallWindows = [], CPUSpikes = [],
      Anomalies =
              [\<lparr>Anomaly.WindowIndex = 0, Anomaly.Type = ''lock_contention'',
                Description = ''High lock contention detected: 51% of samples'',
                Severity = ''high'', Value = Finite 51\<rparr>]\<rparr>"
    by code_simp
  then have an: "Anomalies p =
              [\<lparr>Anomaly.WindowIndex = 0, Anomaly.Type = ''lock_contention'',
                Description = ''High lock contention detected: 51% of samples'',
                Severity = ''high'', Value = Finite 51\<rparr>]"
    using p by simp
  from t[THEN conjunct2, THEN mp, OF h2] obtain q where q: "detectPatterns (aggregate_windows ?tws) = Inr q"
    and j: "\<forall>i < length ?tws. (int i \<in> set (LockContentionWindows q))
              = (2 * leaf_count lock_related (Samples (?tws ! i)) > int (length (Samples (?tws ! i))))"
    by blast
  from j[rule_format, of 0] j[rule_format, of 1]
  have two: "0 \<in> set (LockContentionWindows q)" "1 \<notin> set (LockContentionWindows q)"
    by (simp_all add: leaf_count_leaf_window length_leaf_window example_frames_lock)
  show ?thesis using b l n p one an len q two by blast
qed

subsection \<open>High kernel activity\<close>

lemma high_syscall_flags:
  assumes "\<forall>w \<in> set windows. tallies_bounded w \<and> SampleCount w \<le> maxSliceLen"
  shows "\<exists>p. detectPatterns windows = Inr p
     \<and> (\<forall>i < length windows.
          (int i \<in> set (HighSyscallWindows p))
            = (100 * tally (CategoryCounts (windows ! i)) ''kernel_core'' > 70 * SampleCount (windows ! i))
        \<and> (\<exists>a \<in> set (Anomalies p). Anomaly.WindowIndex a = int i \<and> Anomaly.Type a = ''high_syscall'')
            = (100 * tally (CategoryCounts (windows ! i)) ''kernel_core'' > 70 * SampleCount (windows ! i)))
     \<and> (\<forall>a \<in> set (Anomalies p). Anomaly.Type a = ''high_syscall'' \<longrightarrow>
          Severity a = ''medium''
          \<and> (\<exists>i < length windows. Anomaly.WindowIndex a = int i
                \<and> Value a = KernelPercent (windows ! i)))"
proof -
  have safe: "\<forall>w \<in> set windows. lock_test w \<longrightarrow> SampleCount w \<noteq> 0"
    using assms tallies_bounded_safe by blast
  have t: "syscall_test (windows ! i)
      = (100 * tally (CategoryCounts (windows ! i)) ''kernel_core'' > 70 * SampleCount (windows ! i))"
    if "i < length windows" for i
    using assms that by (intro syscall_test_tally) (simp_all add: tallies_bounded_def)
  have val: "Severity a = ''medium''
          \<and> (\<exists>i < length windows. Anomaly.WindowIndex a = int i
                \<and> Value a = KernelPercent (windows ! i))"
    if a: "a \<in> set (all_anomalies windows)" "Anomaly.Type a = ''high_syscall''" for a
    using syscall_anomaly_fields[OF a] by blast
  show ?thesis
    unfolding detectPatterns_eq[OF safe]
    using t val syscall_anomaly_iff[of _ windows] by (simp add: flag_index_mem)
qed

text \<open>
  C4. For every window aggregate, the pattern detector flags \<open>high_syscall\<close>
  (severity medium, value = the window's \<open>kernelPercent\<close>) exactly when the
  window's \<open>kernel_core\<close> category tally strictly exceeds 70% of the window's
  sample count. This holds of the aggregates whose tallies are within their sample
  count and whose sample count is one a slice can have (beyond \<open>2^63 / 70\<close> the
  product that the code compares with wraps around); for the aggregates computed from
  time windows the tally is the number of samples whose leaf frame is of category
  \<open>kernel_core\<close>.
\<close>

theorem high_syscall_threshold:
  "((\<forall>w \<in> set windows. tallies_bounded w \<and> SampleCount w \<le> maxSliceLen) \<longrightarrow>
     (\<exists>p. detectPatterns windows = Inr p
       \<and> (\<forall>i < length windows.
            (int i \<in> set (HighSyscallWindows p))
              = (100 * tally (CategoryCounts (windows ! i)) ''kernel_core'' > 70 * SampleCount (windows ! i))
          \<and> (\<exists>a \<in> set (Anomalies p). Anomaly.WindowIndex a = int i \<and> Anomaly.Type a = ''high_syscall'')
              = (100 * tally (CategoryCounts (windows ! i)) ''kernel_core'' > 70 * SampleCount (windows ! i)))
       \<and> (\<forall>a \<in> set (Anomalies p). Anomaly.Type a = ''high_syscall'' \<longrightarrow>
            Severity a = ''medium''
            \<and> (\<exists>i < length windows. Anomaly.WindowIndex a = int i
                  \<and> Value a = KernelPercent (windows ! i)))))
   \<and> ((\<forall>w \<in> set timeWindows. int (length (Samples w)) \<le> maxSliceLen) \<longrightarrow>
       (\<exists>p. detectPatterns (aggregate_windows timeWindows) = Inr p
         \<and> (\<forall>i < length timeWindows.
              (int i \<in> set (HighSyscallWindows p))
                = (100 * leaf_count in_kernel_core (Samples (timeWindows ! i))
                     > 70 * int (length (Samples (timeWindows ! i)))))))"
proof (intro conjI impI)
  assume "\<forall>w \<in> set windows. tallies_bounded w \<and> SampleCount w \<le> maxSliceLen"
  then show "\<exists>p. detectPatterns windows = Inr p
       \<and> (\<forall>i < length windows.
            (int i \<in> set (HighSyscallWindows p))
              = (100 * tally (CategoryCounts (windows ! i)) ''kernel_core'' > 70 * SampleCount (windows ! i))
          \<and> (\<exists>a \<in> set (Anomalies p). Anomaly.WindowIndex a = int i \<and> Anomaly.Type a = ''high_syscall'')
              = (100 * tally (CategoryCounts (windows ! i)) ''kernel_core'' > 70 * SampleCount (windows ! i)))
       \<and> (\<forall>a \<in> set (Anomalies p). Anomaly.Type a = ''high_syscall'' \<longrightarrow>
            Severity a = ''medium''
            \<and> (\<exists>i < length windows. Anomaly.WindowIndex a = int i
                  \<and> Value a = KernelPercent (windows ! i)))"
    by (rule high_syscall_flags)
next
  let ?ws = "aggregate_windows timeWindows"
  assume len: "\<forall>w \<in> set timeWindows. int (length (Samples w)) \<le> maxSliceLen"
  have "\<forall>w \<in> set ?ws. tallies_bounded w \<and> SampleCount w \<le> maxSliceLen"
    using len aggregate_windows_bounded[of timeWindows]
    by (auto simp add: aggregate_windows_def in_set_enumerate_eq aggregate_window_counts)
  from high_syscall_flags[OF this]
  obtain p where p: "detectPatterns ?ws = Inr p"
    and f: "\<forall>i < length ?ws. (int i \<in> set (HighSyscallWindows p))
              = (100 * tally (CategoryCounts (?ws ! i)) ''kernel_core'' > 70 * SampleCount (?ws ! i))"
    by blast
  have "(int i \<in> set (HighSyscallWindows p))
      = (100 * leaf_count in_kernel_core (Samples (timeWindows ! i))
           > 70 * int (length (Samples (timeWindows ! i))))"
    if i: "i < length timeWindows" for i
    using f[rule_format, of i] i
    by (simp add: aggregate_windows_length aggregate_windows_nth aggregate_window_counts)
  then show "\<exists>p. detectPatterns ?ws = Inr p
       \<and> (\<forall>i < length timeWindows.
            (int i \<in> set (HighSyscallWindows p))
              = (100 * leaf_count in_kernel_core (Samples (timeWindows ! i))
                   > 70 * int (length (Samples (timeWindows ! i)))))"
    using p by blast
qed

theorem high_syscall_threshold_witness:
  "(tallies_bounded kernel70 \<and> tallies_bounded kernel71)
   \<and> tally (CategoryCounts kernel70) ''kernel_core'' = 70 \<and> SampleCount kernel70 = 100
   \<and> tally (CategoryCounts kernel71) ''kernel_core'' = 71 \<and> SampleCount kernel71 = 100
   \<and> (100::int) \<le> maxSliceLen
   \<and> (\<exists>p. detectPatterns [kernel70, kernel71] = Inr p
          \<and> 0 \<notin> set (HighSyscallWindows p) \<and> 1 \<in> set (HighSyscallWindows p)
          \<and> Anomalies p =
              [\<lparr>Anomaly.WindowIndex = 1, Anomaly.Type = ''high_syscall'',
                Description = ''High kernel/syscall activity: 71.0%'',
                Severity = ''medium'', Value = Finite 71\<rparr>])
   \<and> (int (length (Samples (leaf_window 70 example_frame3 30 example_frame2))) \<le> maxSliceLen
        \<and> int (length (Samples (leaf_window 71 example_frame3 29 example_frame2))) \<le> maxSliceLen)
   \<and> (\<exists>p. detectPatterns (aggregate_windows
              [leaf_window 70 example_frame3 30 example_frame2,
               leaf_window 71 example_frame3 29 example_frame2]) = Inr p
          \<and> 0 \<notin> set (HighSyscallWindows p) \<and> 1 \<in> set (HighSyscallWindows p))"
proof -
  have b: "tallies_bounded kernel70" "tallies_bounded kernel71" by code_simp+
  have t: "tally (CategoryCounts kernel70) ''kernel_core'' = 70"
    "tally (CategoryCounts kernel71) ''kernel_core'' = 71" by code_simp+
  have n: "SampleCount kernel70 = 100" "SampleCount kernel71 = 100"
    by (simp_all add: kernel70_def kernel71_def)
  have m: "(100::int) \<le> maxSliceLen" by (simp add: maxSliceLen_def)
  have h: "\<forall>w \<in> set [kernel70, kernel71]. tallies_bounded w \<and> SampleCount w \<le> maxSliceLen"
    using b n m by simp
  let ?tws = "[leaf_window 70 example_frame3 30 example_frame2,
               leaf_window 71 example_frame3 29 example_frame2]"
  have len: "int (length (Samples (leaf_window 70 example_frame3 30 example_frame2))) \<le> maxSliceLen"
    "int (length (Samples (leaf_window 71 example_frame3 29 example_frame2))) \<le> maxSliceLen"
    by (simp_all add: length_leaf_window maxSliceLen_def)
  then have h2: "\<forall>w \<in> set ?tws. int (length (Samples w)) \<le> maxSliceLen" by simp
  note c = high_syscall_threshold[of "[kernel70, kernel71]" ?tws]
  from c[THEN conjunct1, THEN mp, OF h] obtain p where p: "detectPatterns [kernel70, kernel71] = Inr p"
    and i: "\<forall>i < length [kernel70, kernel71].
          (int i \<in> set (HighSyscallWindows p))
            = (100 * tally (CategoryCounts ([kernel70, kernel71] ! i)) ''kernel_core''
                 > 70 * SampleCount ([kernel70, kernel71] ! i))"
    by blast
  from i[rule_format, of 0] i[rule_format, of 1] t n
  have one: "0 \<notin> set (HighSyscallWindows p)" "1 \<in> set (HighSyscallWindows p)" by simp_all
  have "detectPatterns [kernel70, kernel71] = Inr \<lparr>LockContentionWindows = [],
      HighSyscallWindows = [1], CPUSpikes = [],
      Anomalies =
              [\<lparr>Anomaly.WindowIndex = 1, Anomaly.Type = ''high_syscall'',
                Description = ''High kernel/syscall activity: 71.0%'',
                Severity = ''medium'', Value = Finite 71\<rparr>]\<rparr>"
    by code_simp
  then have an: "Anomalies p =
              [\<lparr>Anomaly.WindowIndex = 1, Anomaly.Type = ''high_syscall'',
                Description = ''High kernel/syscall activity: 71.0%'',
                Severity = ''medium'', Value = Finite 71\<rparr>]"
    using p by simp
  from c[THEN conjunct2, THEN mp, OF h2] obtain q where q: "detectPatterns (aggregate_windows ?tws) = Inr q"
    and j: "\<forall>i < length ?tws. (int i \<in> set (HighSyscallWindows q))
              = (100 * leaf_count in_kernel_core (Samples (?tws ! i))
                   > 70 * int (length (Samples (?tws ! i))))"
    by blast
  from j[rule_format, of 0] j[rule_format, of 1]
  have two: "0 \<notin> set (HighSyscallWindows q)" "1 \<in> set (HighSyscallWindows q)"
    by (simp_all add: leaf_count_leaf_window length_leaf_window example_frames_kernel_core)
  show ?thesis using b t n m p one an len q two by blast
qed

subsection \<open>Windows without samples\<close>

lemma foldl_SampleCount_zero:
  "\<forall>w \<in> set windows. SampleCount w = 0 \<Longrightarrow>
   foldl (\<lambda>n w. int64 (n + SampleCount w)) 0 windows = 0"
  by (induction windows) (simp_all add: int64_def)

lemma flagged_none: "\<forall>w \<in> set ws. \<not> P w \<Longrightarrow> flagged P ws = []"
  by (auto simp add: flagged_def filter_empty_conv in_set_enumerate_eq)

lemma mean_zero_counts:
  assumes "\<forall>w \<in> set windows. 0 \<le> SampleCount w" "mean_samples windows = 0"
  shows "\<forall>w \<in> set windows. SampleCount w = 0"
proof (cases "windows = []")
  case True
  then show ?thesis by simp
next
  case False
  then have "sum_list (map SampleCount windows) = 0"
    using assms(2) by (simp add: mean_samples_def)
  moreover have "\<And>x. x \<in> set (map SampleCount windows) \<Longrightarrow> 0 \<le> x" using assms(1) by auto
  ultimately have "\<forall>x \<in> set (map SampleCount windows). x = 0"
    using sum_list_nonneg_eq_0_iff[of "map SampleCount windows"] by blast
  then show ?thesis by simp
qed

lemma fdiv_zero: "fdiv (Finite 0) x = Finite 0 \<or> fdiv (Finite 0) x = NaN"
  by (cases x) simp_all

lemma no_spike_when_zero:
  assumes "\<forall>w \<in> set windows. SampleCount w = 0"
  shows "\<forall>w \<in> set windows. \<not> spike_test (avgSamples windows) w"
proof -
  have "avgSamples windows = Finite 0 \<or> avgSamples windows = NaN"
    using fdiv_zero by (simp add: avgSamples_def foldl_SampleCount_zero[OF assms] float64_of_int_def)
  then show ?thesis using assms by (auto simp add: spike_test_def float64_of_int_def)
qed

text \<open>
  C8. A window with zero samples is never flagged \<open>lock_contention\<close> or
  \<open>high_syscall\<close>, \<open>detectPatterns\<close> returns (the integer percentage of the
  lock-contention branch never divides by zero), and when the mean sample count across
  all windows is zero, no window is flagged \<open>cpu_spike\<close>. This holds of every
  sequence of aggregates whose tallies are within their sample counts, and the
  aggregates that \<open>GenerateHeatmap\<close> computes are of this kind.
\<close>

theorem empty_window_not_flagged:
  "(\<forall>w \<in> set (aggregate_windows timeWindows). tallies_bounded w)
   \<and> ((\<forall>w \<in> set windows. tallies_bounded w) \<longrightarrow>
       (\<exists>p. detectPatterns windows = Inr p
          \<and> (\<forall>i < length windows. SampleCount (windows ! i) = 0 \<longrightarrow>
                int i \<notin> set (LockContentionWindows p) \<and> int i \<notin> set (HighSyscallWindows p)
                \<and> (\<forall>a \<in> set (Anomalies p). Anomaly.WindowIndex a = int i \<longrightarrow>
                      Anomaly.Type a \<noteq> ''lock_contention'' \<and> Anomaly.Type a \<noteq> ''high_syscall''))
          \<and> (mean_samples windows = 0 \<longrightarrow>
                CPUSpikes p = [] \<and> (\<forall>a \<in> set (Anomalies p). Anomaly.Type a \<noteq> ''cpu_spike''))))"
proof (intro conjI impI)
  show "\<forall>w \<in> set (aggregate_windows timeWindows). tallies_bounded w"
    by (rule aggregate_windows_bounded)
next
  assume b: "\<forall>w \<in> set windows. tallies_bounded w"
  let ?avg = "avgSamples windows"
  have safe: "\<forall>w \<in> set windows. lock_test w \<longrightarrow> SampleCount w \<noteq> 0"
    using b tallies_bounded_safe by blast
  have zero: "\<not> lock_test (windows ! i) \<and> \<not> syscall_test (windows ! i)"
    if "i < length windows" "SampleCount (windows ! i) = 0" for i
  proof -
    have "tallies_bounded (windows ! i)" using b that(1) by simp
    then show ?thesis using that(2)
      by (auto simp add: tallies_bounded_def lock_test_def syscall_test_def quo_def int64_def
          tally_def split: option.splits)
  qed
  have anom: "Anomaly.Type a \<noteq> ''lock_contention'' \<and> Anomaly.Type a \<noteq> ''high_syscall''"
    if i: "i < length windows" "SampleCount (windows ! i) = 0"
      and a: "a \<in> set (all_anomalies windows)" "Anomaly.WindowIndex a = int i" for i a
  proof -
    from a(1) obtain j where j: "j < length windows" "a \<in> set (window_anomalies ?avg (j, windows ! j))"
      using anomaly_mem[of a windows] by blast
    have ji: "j = i" using window_anomalies_index[OF j(2)] a(2) by simp
    have "lock_anomalies i (windows ! i) = []" "syscall_anomalies i (windows ! i) = []"
      using zero[OF i] by (simp_all add: lock_anomalies_def syscall_anomalies_def)
    then show ?thesis
      using window_anomalies_lock[of a ?avg i "windows ! i"]
        window_anomalies_syscall[of a ?avg i "windows ! i"] j(2) ji by auto
  qed
  have spikes: "flagged (spike_test ?avg) windows = []
      \<and> (\<forall>a \<in> set (all_anomalies windows). Anomaly.Type a \<noteq> ''cpu_spike'')"
    if m: "mean_samples windows = 0"
  proof -
    have "\<forall>w \<in> set windows. 0 \<le> SampleCount w" using b by (simp add: tallies_bounded_def)
    from no_spike_when_zero[OF mean_zero_counts[OF this m]]
    have ns: "\<forall>w \<in> set windows. \<not> spike_test ?avg w" .
    have "Anomaly.Type a \<noteq> ''cpu_spike''" if a: "a \<in> set (all_anomalies windows)" for a
    proof -
      from a obtain j where j: "j < length windows" "a \<in> set (window_anomalies ?avg (j, windows ! j))"
        using anomaly_mem[of a windows] by blast
      have "spike_anomalies ?avg j (windows ! j) = []"
        using ns j(1) by (simp add: spike_anomalies_def)
      then show ?thesis using window_anomalies_spike[of a ?avg j "windows ! j"] j(2) by auto
    qed
    then show ?thesis using flagged_none[OF ns] by blast
  qed
  show "\<exists>p. detectPatterns windows = Inr p
          \<and> (\<forall>i < length windows. SampleCount (windows ! i) = 0 \<longrightarrow>
                int i \<notin> set (LockContentionWindows p) \<and> int i \<notin> set (HighSyscallWindows p)
                \<and> (\<forall>a \<in> set (Anomalies p). Anomaly.WindowIndex a = int i \<longrightarrow>
                      Anomaly.Type a \<noteq> ''lock_contention'' \<and> Anomaly.Type a \<noteq> ''high_syscall''))
          \<and> (mean_samples windows = 0 \<longrightarrow>
                CPUSpikes p = [] \<and> (\<forall>a \<in> set (Anomalies p). Anomaly.Type a \<noteq> ''cpu_spike''))"
    unfolding detectPatterns_eq[OF safe]
    using zero anom spikes by (simp add: flag_index_mem)
qed

theorem empty_window_not_flagged_witness:
  "tallies_bounded no_samples
   \<and> SampleCount no_samples = 0 \<and> mean_samples [no_samples, no_samples] = 0
   \<and> (\<exists>p. detectPatterns [no_samples, no_samples] = Inr p
        \<and> 0 \<notin> set (LockContentionWindows p) \<and> 0 \<notin> set (HighSyscallWindows p)
        \<and> CPUSpikes p = [])"
proof -
  have b0: "tallies_bounded no_samples" by code_simp
  then have b: "\<forall>w \<in> set [no_samples, no_samples]. tallies_bounded w" by simp
  have n: "SampleCount no_samples = 0" by (simp add: no_samples_def)
  have m: "mean_samples [no_samples, no_samples] = 0" by (simp add: mean_samples_def n)
  from empty_window_not_flagged[of "[]" "[no_samples, no_samples]", THEN conjunct2, THEN mp, OF b]
  obtain p where p: "detectPatterns [no_samples, no_samples] = Inr p"
    and z: "\<forall>i < length [no_samples, no_samples]. SampleCount ([no_samples, no_samples] ! i) = 0 \<longrightarrow>
                int i \<notin> set (LockContentionWindows p) \<and> int i \<notin> set (HighSyscallWindows p)
                \<and> (\<forall>a \<in> set (Anomalies p). Anomaly.WindowIndex a = int i \<longrightarrow>
                      Anomaly.Type a \<noteq> ''lock_contention'' \<and> Anomaly.Type a \<noteq> ''high_syscall'')"
    and s: "mean_samples [no_samples, no_samples] = 0 \<longrightarrow>
                CPUSpikes p = [] \<and> (\<forall>a \<in> set (Anomalies p). Anomaly.Type a \<noteq> ''cpu_spike'')"
    by blast
  from z[rule_format, of 0] n have "0 \<notin> set (LockContentionWindows p)" "0 \<notin> set (HighSyscallWindows p)"
    by simp_all
  moreover from s m have "CPUSpikes p = []" by simp
  ultimately show ?thesis using b0 n m p by blast
qed

section \<open>Properties of GenerateHeatmap\<close>

text \<open>
  C9. \<open>GenerateHeatmap\<close> applied to an empty sample sequence returns the error
  \<open>no samples to analyze\<close> at once and leaves the world outside as it was: nothing is
  rendered and no file is written.
\<close>

theorem GenerateHeatmap_empty:
  "GenerateHeatmap h [] outputDir processName pid windowSize world
     = (Some (Error ''no samples to analyze''), world)"
  by (simp add: GenerateHeatmap_def)

section \<open>Properties of PartitionByTime\<close>

lemma finite_float64D: "finite_float64 v \<Longrightarrow> \<exists>t. v = Finite t \<and> is_float64 t"
  by (cases v) (simp_all add: finite_float64_def)

lemma fold_min_props:
  assumes "\<forall>s \<in> set samples. \<exists>t. Timestamp s = Finite t"
  shows "\<exists>m. foldl (\<lambda>minTime sample. if fless (Timestamp sample) minTime then Timestamp sample else minTime)
            (Finite a) samples = Finite m
     \<and> m \<in> insert a ((\<lambda>s. the_rat (Timestamp s)) ` set samples)
     \<and> m \<le> a \<and> (\<forall>s \<in> set samples. m \<le> the_rat (Timestamp s))"
  using assms
proof (induction samples arbitrary: a)
  case Nil
  then show ?case by simp
next
  case (Cons s ss)
  obtain t where t: "Timestamp s = Finite t" using Cons.prems by auto
  have r: "\<forall>s \<in> set ss. \<exists>t. Timestamp s = Finite t" using Cons.prems by simp
  show ?case using Cons.IH[OF r, of t] Cons.IH[OF r, of a]
    by (auto simp add: t the_rat_def image_iff)
qed

lemma fold_max_props:
  assumes "\<forall>s \<in> set samples. \<exists>t. Timestamp s = Finite t"
  shows "\<exists>m. foldl (\<lambda>maxTime sample. if fless maxTime (Timestamp sample) then Timestamp sample else maxTime)
            (Finite a) samples = Finite m
     \<and> m \<in> insert a ((\<lambda>s. the_rat (Timestamp s)) ` set samples)
     \<and> a \<le> m \<and> (\<forall>s \<in> set samples. the_rat (Timestamp s) \<le> m)"
  using assms
proof (induction samples arbitrary: a)
  case Nil
  then show ?case by simp
next
  case (Cons s ss)
  obtain t where t: "Timestamp s = Finite t" using Cons.prems by auto
  have r: "\<forall>s \<in> set ss. \<exists>t. Timestamp s = Finite t" using Cons.prems by simp
  show ?case using Cons.IH[OF r, of t] Cons.IH[OF r, of a]
    by (auto simp add: t the_rat_def image_iff)
qed

lemma minTimestamp_eq:
  assumes "\<forall>s \<in> set (s0 # rest). \<exists>t. Timestamp s = Finite t"
  shows "minTimestamp s0 (s0 # rest) = Finite (min_of (s0 # rest))"
proof -
  obtain t0 where t0: "Timestamp s0 = Finite t0" using assms by auto
  from fold_min_props[OF assms, of t0] obtain m where
    m: "minTimestamp s0 (s0 # rest) = Finite m"
      "m \<in> insert t0 ((\<lambda>s. the_rat (Timestamp s)) ` set (s0 # rest))"
      "\<forall>s \<in> set (s0 # rest). m \<le> the_rat (Timestamp s)"
    unfolding minTimestamp_def t0 by blast
  have "t0 = the_rat (Timestamp s0)" by (simp add: t0 the_rat_def)
  then have "m \<in> (\<lambda>s. the_rat (Timestamp s)) ` set (s0 # rest)" using m(2) by auto
  then have "min_of (s0 # rest) = m"
    unfolding min_of_def using m(3) by (intro Min_eqI) auto
  then show ?thesis using m(1) by simp
qed

lemma maxTimestamp_eq:
  assumes "\<forall>s \<in> set (s0 # rest). \<exists>t. Timestamp s = Finite t"
  shows "maxTimestamp s0 (s0 # rest) = Finite (max_of (s0 # rest))"
proof -
  obtain t0 where t0: "Timestamp s0 = Finite t0" using assms by auto
  from fold_max_props[OF assms, of t0] obtain m where
    m: "maxTimestamp s0 (s0 # rest) = Finite m"
      "m \<in> insert t0 ((\<lambda>s. the_rat (Timestamp s)) ` set (s0 # rest))"
      "\<forall>s \<in> set (s0 # rest). the_rat (Timestamp s) \<le> m"
    unfolding maxTimestamp_def t0 by blast
  have "t0 = the_rat (Timestamp s0)" by (simp add: t0 the_rat_def)
  then have "m \<in> (\<lambda>s. the_rat (Timestamp s)) ` set (s0 # rest)" using m(2) by auto
  then have "max_of (s0 # rest) = m"
    unfolding max_of_def using m(3) by (intro Max_eqI) auto
  then show ?thesis using m(1) by simp
qed

lemma int_of_float64_nonneg: "0 \<le> x \<Longrightarrow> x < 2 ^ 63 \<Longrightarrow> int_of_float64 (Finite x) = \<lfloor>x\<rfloor>"
proof -
  assume x: "0 \<le> x" "x < 2 ^ 63"
  have "\<lfloor>x\<rfloor> < 2 ^ 63" using x(2) by (simp add: floor_less_iff)
  moreover have "0 \<le> \<lfloor>x\<rfloor>" using x(1) by simp
  ultimately show ?thesis using x(1) by (simp add: int_of_float64_def Let_def)
qed

lemma quotient_finite:
  assumes "0 < w" "fdiv (fsub (Finite maxT) (Finite minT)) (Finite w) = Finite q"
  shows "\<exists>d. round64 (maxT - minT) = Finite d \<and> round64 (d / w) = Finite q"
proof (cases "round64 (maxT - minT)")
  case (Finite d)
  then show ?thesis using assms by simp
next
  case PosInf
  then show ?thesis using assms by simp
next
  case NegInf
  then show ?thesis using assms by simp
next
  case NaN
  then show ?thesis using assms by simp
qed

lemma index_in_range:
  assumes w: "0 < w" and t: "Timestamp s = Finite t" "minT \<le> t" "t \<le> maxT"
    and q: "fdiv (fsub (Finite maxT) (Finite minT)) (Finite w) = Finite q" "q < 2 ^ 45"
  shows "int_of_float64 (fdiv (fsub (Timestamp s) (Finite minT)) (Finite w)) = window_index minT w s
     \<and> 0 \<le> window_index minT w s \<and> window_index minT w s \<le> \<lfloor>q\<rfloor>"
proof -
  from quotient_finite[OF w q(1)] obtain d where
    d: "round64 (maxT - minT) = Finite d" "round64 (d / w) = Finite q" by blast
  have a: "0 \<le> t - minT" "t - minT \<le> maxT - minT" using t by simp_all
  from round64_nonneg_mono[OF a d(1)]
  have ds: "round64 (t - minT) = Finite (nearest (t - minT))" "0 \<le> nearest (t - minT)"
    "nearest (t - minT) \<le> d" by auto
  have b: "0 \<le> nearest (t - minT) / w" "nearest (t - minT) / w \<le> d / w"
    using ds w by (simp_all add: divide_right_mono)
  from round64_nonneg_mono[OF b d(2)]
  have qs: "round64 (nearest (t - minT) / w) = Finite (nearest (nearest (t - minT) / w))"
    "0 \<le> nearest (nearest (t - minT) / w)" "nearest (nearest (t - minT) / w) \<le> q" by auto
  have f: "fdiv (fsub (Timestamp s) (Finite minT)) (Finite w)
      = Finite (nearest (nearest (t - minT) / w))"
    using w by (simp add: t(1) ds(1) qs(1))
  have "nearest (nearest (t - minT) / w) < 2 ^ 63" using qs(3) q(2) by simp
  from int_of_float64_nonneg[OF qs(2) this] qs(2) floor_mono[OF qs(3)] show ?thesis
    by (simp add: f window_index_def the_rat_def)
qed

lemma assign_samples_result:
  assumes "\<forall>s \<in> set ss. int_of_float64 (fdiv (fsub (Timestamp s) (Finite minT)) (Finite w))
        = window_index minT w s
      \<and> 0 \<le> window_index minT w s \<and> window_index minT w s < int (length ws)"
  shows "length (assign_samples (Finite minT) (Finite w) ws ss) = length ws
     \<and> (\<forall>i < length ws.
          TimeWindow.StartTime (assign_samples (Finite minT) (Finite w) ws ss ! i)
            = TimeWindow.StartTime (ws ! i)
          \<and> TimeWindow.EndTime (assign_samples (Finite minT) (Finite w) ws ss ! i)
            = TimeWindow.EndTime (ws ! i)
          \<and> Duration (assign_samples (Finite minT) (Finite w) ws ss ! i) = Duration (ws ! i)
          \<and> Samples (assign_samples (Finite minT) (Finite w) ws ss ! i)
            = Samples (ws ! i) @ filter (\<lambda>s. window_index minT w s = int i) ss)"
  using assms
proof (induction ss arbitrary: ws)
  case Nil
  then show ?case by simp
next
  case (Cons s ss)
  let ?k = "window_index minT w s"
  let ?ws = "ws[nat ?k := (ws ! nat ?k)\<lparr>Samples := Samples (ws ! nat ?k) @ [s]\<rparr>]"
  let ?r = "assign_samples (Finite minT) (Finite w) ?ws ss"
  have k: "int_of_float64 (fdiv (fsub (Timestamp s) (Finite minT)) (Finite w)) = ?k"
    "0 \<le> ?k" "?k < int (length ws)"
    using Cons.prems by auto
  have step: "assign_samples (Finite minT) (Finite w) ws (s # ss) = ?r"
    using k by (simp add: Let_def)
  have "\<forall>s \<in> set ss. int_of_float64 (fdiv (fsub (Timestamp s) (Finite minT)) (Finite w))
        = window_index minT w s
      \<and> 0 \<le> window_index minT w s \<and> window_index minT w s < int (length ?ws)"
    using Cons.prems by simp
  from Cons.IH[OF this] have l: "length ?r = length ws"
    and f: "\<forall>i < length ws.
          TimeWindow.StartTime (?r ! i) = TimeWindow.StartTime (?ws ! i)
          \<and> TimeWindow.EndTime (?r ! i) = TimeWindow.EndTime (?ws ! i)
          \<and> Duration (?r ! i) = Duration (?ws ! i)
          \<and> Samples (?r ! i) = Samples (?ws ! i) @ filter (\<lambda>s. window_index minT w s = int i) ss"
    by auto
  have "TimeWindow.StartTime (?r ! i) = TimeWindow.StartTime (ws ! i)
          \<and> TimeWindow.EndTime (?r ! i) = TimeWindow.EndTime (ws ! i)
          \<and> Duration (?r ! i) = Duration (ws ! i)
          \<and> Samples (?r ! i) = Samples (ws ! i) @ filter (\<lambda>s. window_index minT w s = int i) (s # ss)"
    if i: "i < length ws" for i
  proof (cases "i = nat ?k")
    case True
    then have "?k = int i" using k(2) by simp
    then show ?thesis using f[rule_format, OF i] i True by simp
  next
    case False
    then have "?k \<noteq> int i" by auto
    then show ?thesis using f[rule_format, OF i] i False by simp
  qed
  then show ?case unfolding step using l by simp
qed

lemma class_sizes:
  assumes "\<forall>s \<in> set xs. 0 \<le> f s \<and> f s < int n"
  shows "(\<Sum>i = 0..<n. length (filter (\<lambda>s. f s = int i) xs)) = length xs"
  using assms
proof (induction xs)
  case Nil
  then show ?case by simp
next
  case (Cons x xs)
  have x: "0 \<le> f x" "f x < int n" using Cons.prems by auto
  have "(\<Sum>i = 0..<n. length (filter (\<lambda>s. f s = int i) (x # xs)))
      = (\<Sum>i = 0..<n. (if i = nat (f x) then 1 else 0) + length (filter (\<lambda>s. f s = int i) xs))"
    using x by (intro sum.cong) auto
  also have "\<dots> = (\<Sum>i = 0..<n. if i = nat (f x) then 1 else 0)
      + (\<Sum>i = 0..<n. length (filter (\<lambda>s. f s = int i) xs))"
    by (simp add: sum.distrib)
  also have "(\<Sum>i = 0..<n. if i = nat (f x) then 1 else 0) = (1::nat)"
    using x by (simp add: sum.delta')
  finally show ?case using Cons by simp
qed

lemma new_window_fields:
  "TimeWindow.StartTime (new_window m w i) = fadd m (fmul (float64_of_int (int i)) w)"
  "TimeWindow.EndTime (new_window m w i) = fadd (fadd m (fmul (float64_of_int (int i)) w)) w"
  "Duration (new_window m w i) = w"
  "Samples (new_window m w i) = []"
  by (simp_all add: new_window_def Let_def)

lemma exact_start:
  assumes "i < 2 ^ 53" "is_float64 (of_nat i * w)" "is_float64 (m + of_nat i * w)"
  shows "fadd (Finite m) (fmul (float64_of_int (int i)) (Finite w)) = Finite (m + of_nat i * w)"
proof -
  have "float64_of_int (int i) = Finite (of_nat i)"
    using float64_of_int_exact[of "int i"] assms(1) by simp
  then show ?thesis using assms(2,3) by (simp add: is_float64_def)
qed

text \<open>
  C1, as stated, fails. The bounds of the windows are computed in float64, each from
  \<open>minTime\<close> and the index: with samples at 100.0 and 100.3 and windows of 0.1 s the
  second window ends at 100.19999999999999 and the third starts at 100.2. And with
  samples one second apart and windows of \<open>2^-50\<close> s there would be more windows than
  a slice can hold: \<open>make\<close> panics.
\<close>

theorem PartitionByTime_gap_counterexample:
  "0 < tenth \<and> is_float64 tenth \<and> is_float64 100 \<and> is_float64 t100_3
   \<and> PartitionByTime [sample_at 100, sample_at t100_3] (Finite tenth)
       = Inr [(new_window (Finite 100) (Finite tenth) 0)\<lparr>Samples := [sample_at 100]\<rparr>,
              new_window (Finite 100) (Finite tenth) 1,
              (new_window (Finite 100) (Finite tenth) 2)\<lparr>Samples := [sample_at t100_3]\<rparr>]
   \<and> TimeWindow.EndTime (new_window (Finite 100) (Finite tenth) 1)
       = Finite (1762737041650483 / 17592186044416)
   \<and> TimeWindow.StartTime (new_window (Finite 100) (Finite tenth) 2)
       = Finite (7050948166601933 / 70368744177664)
   \<and> TimeWindow.EndTime (new_window (Finite 100) (Finite tenth) 1)
       \<noteq> TimeWindow.StartTime (new_window (Finite 100) (Finite tenth) 2)
   \<and> is_float64 (1 / 2 ^ 50) \<and> is_float64 0 \<and> is_float64 1
   \<and> PartitionByTime [sample_at 0, sample_at 1] (Finite (1 / 2 ^ 50))
       = Inl (Panic ''runtime error: makeslice: len out of range'')"
proof -
  have w: "PartitionByTime [sample_at 100, sample_at t100_3] (Finite tenth)
     = Inr [(new_window (Finite 100) (Finite tenth) 0)\<lparr>Samples := [sample_at 100]\<rparr>,
            new_window (Finite 100) (Finite tenth) 1,
            (new_window (Finite 100) (Finite tenth) 2)\<lparr>Samples := [sample_at t100_3]\<rparr>]"
    by code_simp
  have e: "TimeWindow.EndTime (new_window (Finite 100) (Finite tenth) 1)
      = Finite (1762737041650483 / 17592186044416)"
    by code_simp
  have s: "TimeWindow.StartTime (new_window (Finite 100) (Finite tenth) 2)
      = Finite (7050948166601933 / 70368744177664)"
    by code_simp
  have f: "0 < tenth \<and> is_float64 tenth \<and> is_float64 100 \<and> is_float64 t100_3"
    by code_simp
  have g: "is_float64 (1 / 2 ^ 50) \<and> is_float64 0 \<and> is_float64 1" by code_simp
  have p: "PartitionByTime [sample_at 0, sample_at 1] (Finite (1 / 2 ^ 50))
      = Inl (Panic ''runtime error: makeslice: len out of range'')"
    by code_simp
  show ?thesis unfolding e s using w f g p by simp
qed

text \<open>
  C1, amended. For every non-empty sequence of samples with finite float64 timestamps
  and every strictly positive float64 window size for which the float64 quotient
  \<open>(maxTimestamp - minTimestamp) / windowSize\<close> is finite and below \<open>2^45\<close>,
  \<open>PartitionByTime\<close> returns exactly the floor of that quotient plus one windows
  (memory permitting). Window \<open>i\<close> starts at \<open>minTimestamp + i * windowSize\<close> and
  ends at its start plus \<open>windowSize\<close>, both as float64 computes them, and has
  duration \<open>windowSize\<close>; the first window starts at \<open>minTimestamp\<close>. Whenever
  float64 represents exactly the products \<open>i * windowSize\<close> and the bounds
  \<open>minTimestamp + i * windowSize\<close>, for every \<open>i\<close> up to the number of windows,
  window \<open>i\<close> starts at that bound and ends at the next, so the windows are contiguous
  (each \<open>EndTime\<close> equals the next \<open>StartTime\<close>). Every input sample is placed in
  exactly one window, the one whose index is the floor of
  \<open>(timestamp - minTimestamp) / windowSize\<close> in float64, so the sum of the per-window
  sample counts equals the input sample count.
\<close>

theorem PartitionByTime_windows:
  assumes ne: "samples \<noteq> []"
    and w: "is_float64 w" "0 < w"
    and fl: "\<forall>s \<in> set samples. finite_float64 (Timestamp s)"
    and q: "fdiv (fsub (Finite (max_of samples)) (Finite (min_of samples))) (Finite w) = Finite q"
      "q < 2 ^ 45"
  shows "\<exists>windows. PartitionByTime samples (Finite w) = Inr windows
     \<and> int (length windows) = \<lfloor>q\<rfloor> + 1
     \<and> TimeWindow.StartTime (windows ! 0) = Finite (min_of samples)
     \<and> (\<forall>i < length windows.
          TimeWindow.StartTime (windows ! i)
            = fadd (Finite (min_of samples)) (fmul (float64_of_int (int i)) (Finite w))
          \<and> TimeWindow.EndTime (windows ! i) = fadd (TimeWindow.StartTime (windows ! i)) (Finite w)
          \<and> Duration (windows ! i) = Finite w
          \<and> Samples (windows ! i)
            = filter (\<lambda>s. window_index (min_of samples) w s = int i) samples)
     \<and> ((\<forall>i \<le> length windows. is_float64 (of_nat i * w)
            \<and> is_float64 (min_of samples + of_nat i * w))
          \<longrightarrow> (\<forall>i < length windows.
                 TimeWindow.StartTime (windows ! i) = Finite (min_of samples + of_nat i * w)
                 \<and> TimeWindow.EndTime (windows ! i) = Finite (min_of samples + of_nat (Suc i) * w))
              \<and> (\<forall>i. Suc i < length windows \<longrightarrow>
                 TimeWindow.EndTime (windows ! i) = TimeWindow.StartTime (windows ! Suc i)))
     \<and> (\<forall>s \<in> set samples. 0 \<le> window_index (min_of samples) w s
            \<and> window_index (min_of samples) w s < int (length windows))
     \<and> sum_list (map (\<lambda>window. length (Samples window)) windows) = length samples"
proof -
  obtain s0 rest where sm: "samples = s0 # rest" using ne by (cases samples) auto
  let ?m = "min_of samples" and ?M = "max_of samples"
  let ?n = "nat (\<lfloor>q\<rfloor> + 1)"
  let ?ws = "map (new_window (Finite ?m) (Finite w)) [0..<?n]"
  let ?r = "assign_samples (Finite ?m) (Finite w) ?ws samples"
  have fin: "\<forall>s \<in> set samples. \<exists>t. Timestamp s = Finite t"
    using fl finite_float64D by blast
  have mn: "minTimestamp s0 samples = Finite ?m" and mx: "maxTimestamp s0 samples = Finite ?M"
    using fin unfolding sm by (intro minTimestamp_eq, simp, intro maxTimestamp_eq, simp)
  have bounds: "?m \<le> the_rat (Timestamp s) \<and> the_rat (Timestamp s) \<le> ?M" if "s \<in> set samples" for s
    using that by (simp add: min_of_def max_of_def)
  have "?m \<in> (\<lambda>s. the_rat (Timestamp s)) ` set samples"
    unfolding min_of_def using ne by (intro Min_in) auto
  then obtain sm0 where sm0: "sm0 \<in> set samples" "?m = the_rat (Timestamp sm0)" by auto
  have fm: "is_float64 ?m"
    using finite_float64D[of "Timestamp sm0"] fl sm0 by (auto simp add: the_rat_def)
  from quotient_finite[OF w(2) q(1)] obtain d where
    d: "round64 (?M - ?m) = Finite d" "round64 (d / w) = Finite q" by blast
  have "?m \<le> ?M" using bounds[of s0] sm by auto
  then have "0 \<le> nearest (?M - ?m)" by (intro nearest_nonneg) simp
  then have "0 \<le> d" using round64_FiniteD(1)[OF d(1)] by simp
  then have "0 \<le> nearest (d / w)" using w(2) by (intro nearest_nonneg) simp
  then have q0: "0 \<le> q" using round64_FiniteD(1)[OF d(2)] by simp
  have q63: "q < 2 ^ 63" using q(2) by (rule less_trans) simp
  have iq: "int_of_float64 (Finite q) = \<lfloor>q\<rfloor>" by (rule int_of_float64_nonneg[OF q0 q63])
  have fq: "0 \<le> \<lfloor>q\<rfloor>" "\<lfloor>q\<rfloor> < 2 ^ 45" using q0 q(2) by (simp_all add: floor_less_iff)
  have n: "int ?n = \<lfloor>q\<rfloor> + 1" using fq by simp
  have nw: "int64 (\<lfloor>q\<rfloor> + 1) = \<lfloor>q\<rfloor> + 1" using fq by (intro int64_id) simp_all
  have idx: "int_of_float64 (fdiv (fsub (Timestamp s) (Finite ?m)) (Finite w)) = window_index ?m w s
      \<and> 0 \<le> window_index ?m w s \<and> window_index ?m w s < int (length ?ws)"
    if s: "s \<in> set samples" for s
  proof -
    obtain t where t: "Timestamp s = Finite t" using fin s by auto
    have "?m \<le> t" "t \<le> ?M" using bounds[OF s] by (simp_all add: t the_rat_def)
    from index_in_range[OF w(2) t this q] show ?thesis using n by simp
  qed
  then have "\<forall>s \<in> set samples.
      int_of_float64 (fdiv (fsub (Timestamp s) (Finite ?m)) (Finite w)) = window_index ?m w s
      \<and> 0 \<le> window_index ?m w s \<and> window_index ?m w s < int (length ?ws)" by blast
  from assign_samples_result[OF this] have l: "length ?r = ?n"
    and f: "\<forall>i < ?n.
          TimeWindow.StartTime (?r ! i) = TimeWindow.StartTime (?ws ! i)
          \<and> TimeWindow.EndTime (?r ! i) = TimeWindow.EndTime (?ws ! i)
          \<and> Duration (?r ! i) = Duration (?ws ! i)
          \<and> Samples (?r ! i) = Samples (?ws ! i) @ filter (\<lambda>s. window_index ?m w s = int i) samples"
    by auto
  have fields: "TimeWindow.StartTime (?r ! i) = fadd (Finite ?m) (fmul (float64_of_int (int i)) (Finite w))
          \<and> TimeWindow.EndTime (?r ! i) = fadd (TimeWindow.StartTime (?r ! i)) (Finite w)
          \<and> Duration (?r ! i) = Finite w
          \<and> Samples (?r ! i) = filter (\<lambda>s. window_index ?m w s = int i) samples"
    if "i < ?n" for i
    using f[rule_format, OF that] that by (simp add: new_window_fields)
  have P: "PartitionByTime samples (Finite w) = Inr ?r"
  proof -
    have "\<not> (\<lfloor>q\<rfloor> + 1 < 0 \<or> maxSliceLen < \<lfloor>q\<rfloor> + 1)"
      using fq unfolding maxSliceLen_def by linarith
    then show ?thesis
      unfolding PartitionByTime_def sm list.case Let_def mn[unfolded sm] mx[unfolded sm]
        q(1)[unfolded sm] iq nw
      by (simp add: sm)
  qed
  have n0: "0 < ?n" using fq by simp
  have n53: "i < 2 ^ 53" if "i \<le> ?n" for i
  proof -
    have "int i \<le> \<lfloor>q\<rfloor> + 1" using that n by linarith
    moreover have "(2::int) ^ 45 + 1 < 2 ^ 53" by simp
    ultimately have "int i < 2 ^ 53" using fq(2) by linarith
    then show ?thesis by (metis of_nat_less_iff of_nat_numeral of_nat_power)
  qed
  have start0: "TimeWindow.StartTime (?r ! 0) = Finite ?m"
    using fields[OF n0] fm by (simp add: float64_of_int_def is_float64_def)
  have exact: "TimeWindow.StartTime (?r ! i) = Finite (?m + of_nat i * w)
        \<and> TimeWindow.EndTime (?r ! i) = Finite (?m + of_nat (Suc i) * w)"
    if ex: "\<forall>i \<le> ?n. is_float64 (of_nat i * w) \<and> is_float64 (?m + of_nat i * w)"
      and i: "i < ?n" for i
  proof -
    have a: "TimeWindow.StartTime (?r ! i) = Finite (?m + of_nat i * w)"
      using fields[OF i] i ex[rule_format, of i] exact_start[OF n53, of i w ?m] by simp
    have c: "?m + of_nat i * w + w = ?m + of_nat (Suc i) * w" by (simp add: algebra_simps)
    have "TimeWindow.EndTime (?r ! i) = round64 (?m + of_nat i * w + w)"
      using fields[OF i] a by simp
    also have "\<dots> = round64 (?m + of_nat (Suc i) * w)" by (simp only: c)
    also have "\<dots> = Finite (?m + of_nat (Suc i) * w)"
      using ex[rule_format, of "Suc i"] i by (simp add: is_float64_def)
    finally show ?thesis using a by simp
  qed
  have inrange: "0 \<le> window_index ?m w s \<and> window_index ?m w s < int ?n" if "s \<in> set samples" for s
    using idx[OF that] by simp
  have "sum_list (map (\<lambda>window. length (Samples window)) ?r)
      = (\<Sum>i = 0..<?n. length (Samples (?r ! i)))"
    using l by (simp add: sum_list_sum_nth)
  also have "\<dots> = (\<Sum>i = 0..<?n. length (filter (\<lambda>s. window_index ?m w s = int i) samples))"
    using fields by (intro sum.cong) auto
  also have "\<dots> = length samples" using inrange by (intro class_sizes) blast
  finally have total: "sum_list (map (\<lambda>window. length (Samples window)) ?r) = length samples" .
  show ?thesis
  proof (intro exI[of _ ?r] conjI)
    show "PartitionByTime samples (Finite w) = Inr ?r" by (rule P)
    show "int (length ?r) = \<lfloor>q\<rfloor> + 1" unfolding l by (rule n)
    show "TimeWindow.StartTime (?r ! 0) = Finite ?m" by (rule start0)
    show "\<forall>i < length ?r.
          TimeWindow.StartTime (?r ! i) = fadd (Finite ?m) (fmul (float64_of_int (int i)) (Finite w))
          \<and> TimeWindow.EndTime (?r ! i) = fadd (TimeWindow.StartTime (?r ! i)) (Finite w)
          \<and> Duration (?r ! i) = Finite w
          \<and> Samples (?r ! i) = filter (\<lambda>s. window_index ?m w s = int i) samples"
      unfolding l using fields by blast
    show "(\<forall>i \<le> length ?r. is_float64 (of_nat i * w) \<and> is_float64 (?m + of_nat i * w))
          \<longrightarrow> (\<forall>i < length ?r.
                 TimeWindow.StartTime (?r ! i) = Finite (?m + of_nat i * w)
                 \<and> TimeWindow.EndTime (?r ! i) = Finite (?m + of_nat (Suc i) * w))
              \<and> (\<forall>i. Suc i < length ?r \<longrightarrow>
                 TimeWindow.EndTime (?r ! i) = TimeWindow.StartTime (?r ! Suc i))"
      unfolding l using exact by (metis Suc_lessD)
    show "\<forall>s \<in> set samples. 0 \<le> window_index ?m w s \<and> window_index ?m w s < int (length ?r)"
      unfolding l using inrange by blast
    show "sum_list (map (\<lambda>window. length (Samples window)) ?r) = length samples" by (rule total)
  qed
qed

theorem PartitionByTime_windows_witness:
  "[sample_at 100, sample_at (203 / 2)] \<noteq> [] \<and> is_float64 1 \<and> (0::rat) < 1
   \<and> finite_float64 (Timestamp (sample_at 100)) \<and> finite_float64 (Timestamp (sample_at (203 / 2)))
   \<and> fdiv (fsub (Finite (max_of [sample_at 100, sample_at (203 / 2)]))
                  (Finite (min_of [sample_at 100, sample_at (203 / 2)]))) (Finite 1) = Finite (3 / 2)
   \<and> (3 / 2 :: rat) < 2 ^ 45
   \<and> (\<exists>windows. PartitionByTime [sample_at 100, sample_at (203 / 2)] (Finite 1) = Inr windows
        \<and> length windows = 2
        \<and> TimeWindow.StartTime (windows ! 0) = Finite 100
        \<and> TimeWindow.EndTime (windows ! 0) = Finite 101
        \<and> TimeWindow.StartTime (windows ! 1) = Finite 101
        \<and> TimeWindow.EndTime (windows ! 1) = Finite 102
        \<and> sum_list (map (\<lambda>window. length (Samples window)) windows) = 2)"
proof -
  let ?ss = "[sample_at 100, sample_at (203 / 2)]"
  have ne: "?ss \<noteq> []" by simp
  have w: "is_float64 1" "(0::rat) < 1" by code_simp+
  have f: "finite_float64 (Timestamp (sample_at 100))" "finite_float64 (Timestamp (sample_at (203 / 2)))"
    by code_simp+
  then have fl: "\<forall>s \<in> set ?ss. finite_float64 (Timestamp s)" by simp
  have m: "min_of ?ss = 100" "max_of ?ss = 203 / 2"
    by (simp_all add: min_of_def max_of_def sample_at_def the_rat_def)
  have q: "fdiv (fsub (Finite (max_of ?ss)) (Finite (min_of ?ss))) (Finite 1) = Finite (3 / 2)"
    unfolding m by code_simp
  have q': "(3 / 2 :: rat) < 2 ^ 45" by simp
  have ex: "is_float64 (of_nat i * 1) \<and> is_float64 (min_of ?ss + of_nat i * 1)" if "i \<le> 2" for i
  proof -
    have "is_float64 0" "is_float64 1" "is_float64 2" "is_float64 (100 + 0)" "is_float64 (100 + 1)"
      "is_float64 (100 + 2)" by code_simp+
    moreover have "i = 0 \<or> i = 1 \<or> i = 2" using that by auto
    ultimately show ?thesis unfolding m by auto
  qed
  from PartitionByTime_windows[OF ne w fl q q'] obtain windows where
    p: "PartitionByTime ?ss (Finite 1) = Inr windows"
    and l: "int (length windows) = \<lfloor>3 / 2 :: rat\<rfloor> + 1"
    and c: "(\<forall>i \<le> length windows. is_float64 (of_nat i * 1)
            \<and> is_float64 (min_of ?ss + of_nat i * 1))
          \<longrightarrow> (\<forall>i < length windows.
                 TimeWindow.StartTime (windows ! i) = Finite (min_of ?ss + of_nat i * 1)
                 \<and> TimeWindow.EndTime (windows ! i) = Finite (min_of ?ss + of_nat (Suc i) * 1))
              \<and> (\<forall>i. Suc i < length windows \<longrightarrow>
                 TimeWindow.EndTime (windows ! i) = TimeWindow.StartTime (windows ! Suc i))"
    and t: "sum_list (map (\<lambda>window. length (Samples window)) windows) = length ?ss"
    by blast
  have "\<lfloor>(3::rat) / 2\<rfloor> = 1" by code_simp
  then have l2: "length windows = 2" using l by simp
  have b: "\<forall>i < length windows.
                 TimeWindow.StartTime (windows ! i) = Finite (min_of ?ss + of_nat i * 1)
                 \<and> TimeWindow.EndTime (windows ! i) = Finite (min_of ?ss + of_nat (Suc i) * 1)"
    using c ex l2 by simp
  from b[rule_format, of 0] b[rule_format, of 1] l2 m
  have "TimeWindow.StartTime (windows ! 0) = Finite 100" "TimeWindow.EndTime (windows ! 0) = Finite 101"
    "TimeWindow.StartTime (windows ! 1) = Finite 101" "TimeWindow.EndTime (windows ! 1) = Finite 102"
    by simp_all
  moreover have "sum_list (map (\<lambda>window. length (Samples window)) windows) = 2" using t by simp
  ultimately show ?thesis using ne w f q q' p l2 by blast
qed

end
